theory Spec2Isabelle
  imports
    Main
    "HOL-Library.Char_ord"
    "HOL-Library.List_Lexorder"
    "HOL-Library.AList"
    "HOL-Library.Multiset"
begin

section \<open>Data model (instruction.h, operations.h)\<close>

text \<open>
  \<^verbatim>\<open>enum class Result { Ok, Err, Undefined }\<close> and the \<^verbatim>\<open>Output\<close> wrapper around a
  result tag and a message.
\<close>

datatype Result = Ok | Err | Undefined

record Output =
  res :: Result
  msg :: string

definition Output_empty :: Output where
  "Output_empty = \<lparr>res = Undefined, msg = []\<rparr>"

definition new_ok :: "string \<Rightarrow> Output" where
  "new_ok message = \<lparr>res = Ok, msg = message\<rparr>"

definition new_err :: "string \<Rightarrow> Output" where
  "new_err message = \<lparr>res = Err, msg = message\<rparr>"

definition is_ok :: "Output \<Rightarrow> bool" where
  "is_ok out \<longleftrightarrow> res out = Ok"

definition is_err :: "Output \<Rightarrow> bool" where
  "is_err out \<longleftrightarrow> res out = Err"

definition is_undefined :: "Output \<Rightarrow> bool" where
  "is_undefined out \<longleftrightarrow> res out = Undefined"

definition get_message :: "Output \<Rightarrow> string" where
  "get_message out = msg out"

text \<open>
  \<^verbatim>\<open>struct Flag { String name; String arg; usize pos; i32 mod = 0; }\<close>. The field
  \<^verbatim>\<open>mod\<close> is called \<open>modv\<close> here. The \<^verbatim>\<open>usize\<close> counters are natural numbers: a token
  vector holds fewer than \<^verbatim>\<open>SIZE_MAX\<close> elements, so \<^verbatim>\<open>position++\<close> never wraps.

  The constructor \<^verbatim>\<open>Flag()\<close> builds a temporary \<^verbatim>\<open>Flag("", "", SIZE_MAX)\<close> and drops it, so
  the object itself is default-initialised: empty \<^verbatim>\<open>name\<close> and \<^verbatim>\<open>arg\<close>, \<^verbatim>\<open>mod = 0\<close>, and
  a \<^verbatim>\<open>pos\<close> that is never written. That indeterminate value is the parameter \<open>u\<close>. The
  flag that carries it has an empty name, which no command answers to, so no \<^verbatim>\<open>validate\<close>
  computes \<^verbatim>\<open>pos + 1\<close> from it.
\<close>

record Flag =
  name :: string
  arg :: string
  pos :: nat
  modv :: int

definition Flag_new :: "nat \<Rightarrow> Flag" where
  "Flag_new u = \<lparr>name = [], arg = [], pos = u, modv = 0\<rparr>"

definition is_empty :: "Flag \<Rightarrow> bool" where
  "is_empty f \<longleftrightarrow> arg f = []"

definition exists_flag :: "Flag \<Rightarrow> bool" where
  "exists_flag f \<longleftrightarrow> name f \<noteq> []"

definition parse :: "Flag \<Rightarrow> Flag" where
  "parse f = (if arg f \<noteq> [] then f\<lparr>arg := butlast (arg f)\<rparr> else f)"

definition name_in :: "Flag \<Rightarrow> string list \<Rightarrow> bool" where
  "name_in f names \<longleftrightarrow> list_ex (\<lambda>name_outer. name f = name_outer) names"

text \<open>\<^verbatim>\<open>struct Operations\<close>: the run state shared with every command.\<close>

record Operations =
  file_in :: string
  file_out :: string
  source :: string
  is_panicked :: bool

definition Operations_new :: Operations where
  "Operations_new = \<lparr>file_in = [], file_out = [], source = [], is_panicked = False\<rparr>"

section \<open>Instruction builder (\<^verbatim>\<open>Instruction::from_vec_string\<close>)\<close>

type_synonym Instruction = "Flag list"

text \<open>\<^verbatim>\<open>arg.rfind("-", 0) == 0\<close>: the token starts with a dash.\<close>

definition is_flag :: "string \<Rightarrow> bool" where
  "is_flag tok \<longleftrightarrow> (case tok of [] \<Rightarrow> False | c # _ \<Rightarrow> c = CHR ''-'')"

text \<open>
  The body of the \<^verbatim>\<open>for\<close> loop for a non-empty token, on the loop state
  \<open>(position, flags, flag)\<close>: the flag branch, the argument branch, and the push at the
  last index (\<^verbatim>\<open>i + 1 == vec_s.size()\<close>, here \<open>is_last\<close>).
\<close>

definition on_token :: "nat \<Rightarrow> string \<Rightarrow> nat \<times> Flag list \<times> Flag \<Rightarrow> nat \<times> Flag list \<times> Flag" where
  "on_token u tok st =
     (case st of (position, flags, flag) \<Rightarrow>
        if is_flag tok then
          (if exists_flag flag
           then (position + 1, flags @ [parse flag], (Flag_new u)\<lparr>name := tok, pos := position\<rparr>)
           else (position + 1, flags, flag\<lparr>name := tok, pos := position\<rparr>))
        else
          (if exists_flag flag
           then (position, flags, flag\<lparr>arg := arg flag @ tok @ '' ''\<rparr>)
           else (position, flags, flag)))"

definition on_last :: "bool \<Rightarrow> nat \<times> Flag list \<times> Flag \<Rightarrow> nat \<times> Flag list \<times> Flag" where
  "on_last is_last st =
     (case st of (position, flags, flag) \<Rightarrow>
        if is_last then (position, flags @ [parse flag], parse flag) else st)"

text \<open>
  The loop itself. An empty token takes the \<^verbatim>\<open>continue\<close>, which also skips the check of
  the last index.
\<close>

fun from_vec_loop :: "nat \<Rightarrow> string list \<Rightarrow> nat \<times> Flag list \<times> Flag \<Rightarrow> Flag list" where
  "from_vec_loop u [] st = fst (snd st)"
| "from_vec_loop u (tok # rest) st =
     (if tok = [] then from_vec_loop u rest st
      else from_vec_loop u rest (on_last (rest = []) (on_token u tok st)))"

definition from_vec_string :: "nat \<Rightarrow> string list \<Rightarrow> Instruction" where
  "from_vec_string u vec_s = from_vec_loop u vec_s (0, [], Flag_new u)"

text \<open>The lookups of \<^verbatim>\<open>Instruction\<close>.\<close>

definition get_flag :: "Instruction \<Rightarrow> nat \<Rightarrow> Flag option" where
  "get_flag inst index = find (\<lambda>flag. pos flag = index) inst"

text \<open>
  \<^verbatim>\<open>get_flag_ptr\<close> returns the address of the first flag at the position, or
  \<^verbatim>\<open>nullptr\<close>; the address is the index into the vector.
\<close>

fun get_flag_ptr :: "Instruction \<Rightarrow> nat \<Rightarrow> nat option" where
  "get_flag_ptr [] index = None"
| "get_flag_ptr (flag # rest) index =
     (if pos flag = index then Some 0 else map_option Suc (get_flag_ptr rest index))"

definition flag_exists :: "Instruction \<Rightarrow> string \<Rightarrow> string \<Rightarrow> bool" where
  "flag_exists inst caller_name alias_name \<longleftrightarrow>
     list_ex (\<lambda>flag. name flag = caller_name \<or> name flag = alias_name) inst"

section \<open>The environment of a run\<close>

text \<open>
  What the program takes from outside, and what C++ leaves open:
  \<^item> \<open>files\<close>: the bytes of every file that an \<^verbatim>\<open>ifstream\<close> opens (\<open>None\<close>: the stream is
    not \<^verbatim>\<open>good()\<close>);
  \<^item> \<open>garbage_pos\<close>: the value found in the unwritten \<^verbatim>\<open>pos\<close> of \<^verbatim>\<open>Flag()\<close>;
  \<^item> \<open>map_order\<close>: the iteration order of the \<^verbatim>\<open>unordered_map\<close> of validated commands,
    as a rank of each key given the keys in insertion order;
  \<^item> \<open>sort_order\<close>: the order in which \<^verbatim>\<open>std::sort\<close>, which is not stable, leaves
    elements that its comparator does not tell apart, as a rank of each index of the input;
  \<^item> \<open>size_text\<close>: the characters that \<^verbatim>\<open>ShowFileSize\<close> streams for a file of so many bytes
    (its \<^verbatim>\<open>f32\<close> scaling and rounding and the stream's float format are not modelled).
\<close>

datatype Command =
    SourceFile | InputFile | OutputFile
  | CountLines | CountDigits | CountNumbers | CountChars | CountWords
  | ShowAnagrams | ShowPalindromes | ShowWords | ShowWordsReverse | ShowFileSize
  | WordsConsiderLength

record Env =
  files :: "string \<Rightarrow> string option"
  garbage_pos :: nat
  map_order :: "Command list \<Rightarrow> Command \<Rightarrow> nat"
  sort_order :: "string list \<Rightarrow> nat \<Rightarrow> nat"
  size_text :: "nat \<Rightarrow> string"

section \<open>Helpers (file_operations.cpp, \<^verbatim>\<open>__Helpers\<close>)\<close>

definition nl :: string where
  "nl = [CHR 0x0A]"

definition File_exists :: "Env \<Rightarrow> string \<Rightarrow> bool" where
  "File_exists env file_name \<longleftrightarrow> files env file_name \<noteq> None"

text \<open>
  \<^verbatim>\<open>File::read_unchecked\<close> on a stream that opened: the \<^verbatim>\<open>do ... while (!eof())\<close> loop
  of \<^verbatim>\<open>getline\<close>, each line followed by a newline. The arguments are the unread bytes and the
  line being read.
\<close>

fun read_loop :: "string \<Rightarrow> string \<Rightarrow> string" where
  "read_loop [] line = line @ nl"
| "read_loop (c # cs) line =
     (if c = CHR 0x0A then line @ nl @ read_loop cs [] else read_loop cs (line @ [c]))"

definition read_stream :: "string \<Rightarrow> string" where
  "read_stream raw = read_loop raw []"

text \<open>\<^verbatim>\<open>\s\<close> of \<^verbatim>\<open>std::regex\<close>, \<^verbatim>\<open>[0-9]\<close> and \<^verbatim>\<open>\w\<close>.\<close>

definition is_space :: "char \<Rightarrow> bool" where
  "is_space c \<longleftrightarrow> c \<in> set [CHR 0x20, CHR 0x09, CHR 0x0A, CHR 0x0B, CHR 0x0C, CHR 0x0D]"

definition is_digit :: "char \<Rightarrow> bool" where
  "is_digit ch \<longleftrightarrow> ch \<in> set ''0123456789''"

definition is_word_char :: "char \<Rightarrow> bool" where
  "is_word_char c \<longleftrightarrow>
     c \<in> set ''abcdefghijklmnopqrstuvwxyzABCDEFGHIJKLMNOPQRSTUVWXYZ0123456789_''"

text \<open>
  \<^verbatim>\<open>get_words\<close>: the matches of \<^verbatim>\<open>(?!\s)[\S]+\<close>, left to right, are the maximal runs of
  characters that are not white space. The second argument is the run being read.
\<close>

fun words_loop :: "string \<Rightarrow> string \<Rightarrow> string list" where
  "words_loop [] cur = (if cur = [] then [] else [cur])"
| "words_loop (c # cs) cur =
     (if is_space c then (if cur = [] then words_loop cs [] else cur # words_loop cs [])
      else words_loop cs (cur @ [c]))"

definition get_words :: "string \<Rightarrow> string list" where
  "get_words target = words_loop target []"

text \<open>
  The matches of \<^verbatim>\<open>(^|\s)[0-9]+(?!\w)\<close>. A match starts at the first character or at a
  white-space character, takes every digit that follows (a shorter run would be followed by
  a digit, which \<^verbatim>\<open>\w\<close> accepts), and needs the end of the text or a character outside
  \<^verbatim>\<open>\w\<close> after them.
\<close>

definition number_here :: "string \<Rightarrow> bool" where
  "number_here s \<longleftrightarrow>
     takeWhile is_digit s \<noteq> [] \<and>
     (case dropWhile is_digit s of [] \<Rightarrow> True | c # _ \<Rightarrow> \<not> is_word_char c)"

fun count_numbers :: "bool \<Rightarrow> string \<Rightarrow> nat" where
  "count_numbers at_start [] = 0"
| "count_numbers at_start (c # cs) =
     (if at_start \<and> number_here (c # cs) then 1
      else if is_space c \<and> number_here cs then 1 else 0)
     + count_numbers False cs"

text \<open>An unsigned count written to a stream: its decimal digits.\<close>

fun show_nat :: "nat \<Rightarrow> string" where
  "show_nat n =
     (if n < 10 then [''0123456789'' ! n]
      else show_nat (n div 10) @ [''0123456789'' ! (n mod 10)])"

declare show_nat.simps [simp del]

definition flag_string_stream :: "Flag \<Rightarrow> string" where
  "flag_string_stream flag = ''<'' @ name flag @ ''> ''"

definition flag_string_stream_structure :: "Flag \<Rightarrow> string list \<Rightarrow> string" where
  "flag_string_stream_structure flag collection =
     flag_string_stream flag @
     (if collection = [] then ''{ }''
      else ''{'' @ nl @
           concat (map (\<lambda>word. ''    '' @ [CHR 0x22] @ word @ [CHR 0x22] @ '','' @ nl) collection) @
           ''}'')"

text \<open>
  \<^verbatim>\<open>std::sort\<close> with a comparator. The result is sorted by the comparator; which of the
  sorted arrangements it is, the library decides: here the input is first arranged by
  \<open>sort_order\<close> and then sorted by insertion, so every sorted arrangement is the result
  under some environment.
\<close>

fun insert_by :: "('a \<Rightarrow> 'a \<Rightarrow> bool) \<Rightarrow> 'a \<Rightarrow> 'a list \<Rightarrow> 'a list" where
  "insert_by cmp x [] = [x]"
| "insert_by cmp x (y # ys) = (if cmp x y then x # y # ys else y # insert_by cmp x ys)"

definition arrange :: "(nat \<Rightarrow> nat) \<Rightarrow> 'a list \<Rightarrow> 'a list" where
  "arrange rank xs = map snd (sort_key (\<lambda>p. rank (fst p)) (enumerate 0 xs))"

definition std_sort :: "Env \<Rightarrow> (string \<Rightarrow> string \<Rightarrow> bool) \<Rightarrow> string list \<Rightarrow> string list" where
  "std_sort env cmp xs = foldr (insert_by cmp) (arrange (sort_order env xs) xs) []"

text \<open>\<^verbatim>\<open>Comparators::get_default\<close> and \<^verbatim>\<open>get_reverse\<close>; strings compare byte by byte.\<close>

definition get_default :: "bool \<Rightarrow> string \<Rightarrow> string \<Rightarrow> bool" where
  "get_default as_size =
     (if as_size then (\<lambda>left right. length left < length right)
      else (\<lambda>left right. left < right))"

definition get_reverse :: "bool \<Rightarrow> string \<Rightarrow> string \<Rightarrow> bool" where
  "get_reverse as_size =
     (if as_size then (\<lambda>left right. length left > length right)
      else (\<lambda>left right. left > right))"

text \<open>
  \<^verbatim>\<open>are_anagrams\<close> sorts the characters of both strings and compares the results; which
  order of characters \<^verbatim>\<open>std::sort\<close> uses makes no difference to that comparison.
\<close>

definition are_anagrams :: "string \<Rightarrow> string \<Rightarrow> bool" where
  "are_anagrams first second \<longleftrightarrow>
     (if length first \<noteq> length second then False else sort first = sort second)"

definition are_palindromes :: "string \<Rightarrow> string \<Rightarrow> bool" where
  "are_palindromes first second \<longleftrightarrow>
     (if length first \<noteq> length second then False else first = rev second)"

section \<open>Commands (app_commands.h)\<close>

fun caller :: "Command \<Rightarrow> string" where
  "caller SourceFile = ''-f''"
| "caller InputFile = ''-i''"
| "caller OutputFile = ''-o''"
| "caller CountLines = ''-n''"
| "caller CountDigits = ''-d''"
| "caller CountNumbers = ''-dd''"
| "caller CountChars = ''-c''"
| "caller CountWords = ''-w''"
| "caller ShowAnagrams = ''-a''"
| "caller ShowPalindromes = ''-p''"
| "caller ShowWords = ''-s''"
| "caller ShowWordsReverse = ''-rs''"
| "caller ShowFileSize = ''-si''"
| "caller WordsConsiderLength = ''-l''"

fun alias_of :: "Command \<Rightarrow> string" where
  "alias_of SourceFile = ''--file''"
| "alias_of InputFile = ''--input''"
| "alias_of OutputFile = ''--output''"
| "alias_of CountLines = ''--newlines''"
| "alias_of CountDigits = ''--digits''"
| "alias_of CountNumbers = ''--numbers''"
| "alias_of CountChars = ''--chars''"
| "alias_of CountWords = ''--words''"
| "alias_of ShowAnagrams = ''--anagrams''"
| "alias_of ShowPalindromes = ''--palindromes''"
| "alias_of ShowWords = ''--sorted''"
| "alias_of ShowWordsReverse = ''--reverse-sorted''"
| "alias_of ShowFileSize = ''--size''"
| "alias_of WordsConsiderLength = ''--by-length''"

text \<open>
  \<^verbatim>\<open>validate\<close> takes the flag, the instruction and the run state by reference; the model
  returns the output with the instruction and the run state as the call leaves them.
\<close>

definition last_with_argument :: "Flag \<Rightarrow> Instruction \<Rightarrow> Operations \<Rightarrow> Output \<times> Instruction \<times> Operations" where
  "last_with_argument flag inst operations =
     (if get_flag inst (pos flag + 1) \<noteq> None
      then (new_err (flag_string_stream flag @ ''This flag should be the last one''), inst, operations)
      else if arg flag = []
      then (new_err (flag_string_stream flag @ ''This flag requires an argument!''), inst, operations)
      else (new_ok [], inst, operations))"

fun validate :: "Env \<Rightarrow> Command \<Rightarrow> Flag \<Rightarrow> Instruction \<Rightarrow> Operations \<Rightarrow> Output \<times> Instruction \<times> Operations" where
  "validate env SourceFile flag inst operations =
     (if arg flag = []
      then (new_err (flag_string_stream flag @ ''This flag requires an argument!''), inst, operations)
      else case files env (arg flag) of
        None \<Rightarrow>
          (new_err (flag_string_stream flag @ ''Provided file doesn't exists!''), inst, operations)
      | Some raw \<Rightarrow>
          (new_ok [], inst, operations\<lparr>file_in := arg flag, source := read_stream raw\<rparr>))"
| "validate env OutputFile flag inst operations =
     (if arg flag = []
      then (new_err (flag_string_stream flag @ ''This flag requires an argument!''), inst, operations)
      else (new_ok [], inst, operations\<lparr>file_out := arg flag\<rparr>))"
| "validate env ShowAnagrams flag inst operations = last_with_argument flag inst operations"
| "validate env ShowPalindromes flag inst operations = last_with_argument flag inst operations"
| "validate env WordsConsiderLength flag inst operations =
     (case get_flag_ptr inst (pos flag + 1) of
        Some p \<Rightarrow>
          (if name_in (inst ! p) [''-l'', ''--by-length'']
           then (new_ok [], inst, operations)
           else if \<not> name_in (inst ! p) [''-rs'', ''--reverse-sorted'', ''-s'', ''--sorted'']
           then (new_err (flag_string_stream flag @ ''Missing required flag after this one!''),
                 inst, operations)
           else (new_ok [], inst[p := (inst ! p)\<lparr>modv := 1\<rparr>], operations))
      | None \<Rightarrow>
          (new_err (flag_string_stream flag @ ''This flag can't be the last one!''),
           inst, operations))"
| "validate env command flag inst operations = (new_ok [], inst, operations)"

text \<open>
  \<^verbatim>\<open>execute\<close> of a command. No command writes to the run state here, so the model returns
  the output alone. \<^verbatim>\<open>source.length() - 1\<close> is unsigned arithmetic (64 bits): at length
  0 it wraps to \<^verbatim>\<open>SIZE_MAX\<close>.
\<close>

definition matching_words :: "(string \<Rightarrow> string \<Rightarrow> bool) \<Rightarrow> string list \<Rightarrow> string list \<Rightarrow> string list" where
  "matching_words related words_source words_flag =
     remdups_adj
       (concat (map (\<lambda>first. concat (map (\<lambda>second. if related first second then [first] else [])
          words_flag)) words_source))"

fun execute_command :: "Env \<Rightarrow> Command \<Rightarrow> Flag \<Rightarrow> Operations \<Rightarrow> Output" where
  "execute_command env CountLines flag operations =
     new_ok (flag_string_stream flag @ ''New lines: '' @
       show_nat (length (filter (\<lambda>c. c = CHR 0x0A) (source operations))))"
| "execute_command env CountDigits flag operations =
     new_ok (flag_string_stream flag @ ''Digits: '' @
       show_nat (length (filter is_digit (source operations))))"
| "execute_command env CountNumbers flag operations =
     new_ok (flag_string_stream flag @ ''Numbers: '' @
       show_nat (count_numbers True (source operations)))"
| "execute_command env CountChars flag operations =
     new_ok (flag_string_stream flag @ ''Chars: '' @
       show_nat (if length (source operations) = 0 then 2 ^ 64 - 1
                 else length (source operations) - 1))"
| "execute_command env CountWords flag operations =
     new_ok (flag_string_stream flag @ ''Words: '' @
       show_nat (length (get_words (source operations))))"
| "execute_command env ShowAnagrams flag operations =
     new_ok (flag_string_stream_structure flag
       (matching_words are_anagrams (get_words (source operations)) (get_words (arg flag))))"
| "execute_command env ShowPalindromes flag operations =
     new_ok (flag_string_stream_structure flag
       (matching_words are_palindromes (get_words (source operations)) (get_words (arg flag))))"
| "execute_command env ShowWords flag operations =
     new_ok (flag_string_stream_structure flag
       (std_sort env (get_default (modv flag = 1)) (get_words (source operations))))"
| "execute_command env ShowWordsReverse flag operations =
     new_ok (flag_string_stream_structure flag
       (std_sort env (get_reverse (modv flag = 1)) (get_words (source operations))))"
| "execute_command env ShowFileSize flag operations =
     new_ok (flag_string_stream flag @
       size_text env (case files env (file_in operations) of None \<Rightarrow> 2 ^ 64 - 1 | Some raw \<Rightarrow> length raw))"
| "execute_command env command flag operations = new_ok []"

section \<open>Command registry (command.h)\<close>

text \<open>
  \<^verbatim>\<open>CommandsHolder\<close> keeps three maps under one running \<^verbatim>\<open>id\<close>: the caller, the alias and the
  command of each entry. \<^verbatim>\<open>add\<close> writes all three, so the holder is the list of its commands
  in the order of their ids. The lookups return the first match.
\<close>

type_synonym CommandsHolder = "Command list"

definition holder_add :: "CommandsHolder \<Rightarrow> Command \<Rightarrow> CommandsHolder" where
  "holder_add holder command = holder @ [command]"

definition get_by_alias :: "CommandsHolder \<Rightarrow> string \<Rightarrow> Command option" where
  "get_by_alias holder alias_name = find (\<lambda>command. alias_of command = alias_name) holder"

definition get_by_caller :: "CommandsHolder \<Rightarrow> string \<Rightarrow> Command option" where
  "get_by_caller holder caller_name = find (\<lambda>command. caller command = caller_name) holder"

definition holder_exists :: "CommandsHolder \<Rightarrow> string \<Rightarrow> string \<Rightarrow> bool" where
  "holder_exists holder caller_name alias_name \<longleftrightarrow>
     (if \<not> list_ex (\<lambda>command. caller command = caller_name) holder then False
      else list_ex (\<lambda>command. alias_of command = alias_name) holder)"

section \<open>Engine (engine.h)\<close>

record Engine =
  commands :: CommandsHolder
  outputs :: "Output list"
  operations :: Operations

definition clear :: "Engine \<Rightarrow> Engine" where
  "clear eng = eng\<lparr>outputs := [], operations := Operations_new\<rparr>"

definition add :: "Engine \<Rightarrow> Command \<Rightarrow> Engine" where
  "add eng command =
     (if holder_exists (commands eng) (caller command) (alias_of command) then eng
      else eng\<lparr>commands := holder_add (commands eng) command\<rparr>)"

definition Engine_new :: Engine where
  "Engine_new =
     foldl add \<lparr>commands = [], outputs = [], operations = Operations_new\<rparr>
       [SourceFile, InputFile, OutputFile]"

text \<open>\<^verbatim>\<open>create_engine\<close> of main.cpp.\<close>

definition create_engine :: Engine where
  "create_engine =
     foldl add Engine_new
       [CountChars, CountDigits, CountLines, CountNumbers, CountWords, ShowAnagrams,
        ShowFileSize, ShowPalindromes, ShowWords, ShowWordsReverse, WordsConsiderLength]"

text \<open>The loop of \<^verbatim>\<open>grab_output\<close> over the outputs, on the text of the stream so far.\<close>

definition render_step :: "string \<Rightarrow> Output \<Rightarrow> string" where
  "render_step stream out =
     (if get_message out = [] then stream
      else stream @ (if is_ok out then ''[SUCCESS]'' else ''[ERROR]'') @ '': '' @
           get_message out @ nl)"

definition render :: "Output list \<Rightarrow> string" where
  "render outs = foldl render_step [] outs"

text \<open>
  What one call of \<^verbatim>\<open>Engine::execute\<close> leaves: the string it returns, the file it wrote
  (path and content) if any, and the engine after it. \<open>calls\<close> is a log that the model
  keeps: the calls of \<^verbatim>\<open>execute\<close> on a command, in the order they were made.
\<close>

record Run =
  returned :: string
  written :: "(string \<times> string) option"
  engine :: Engine
  calls :: "(Command \<times> Flag) list"

definition grab_output :: "Engine \<Rightarrow> (Command \<times> Flag) list \<Rightarrow> Run" where
  "grab_output eng log =
     (if file_out (operations eng) \<noteq> []
      then \<lparr>returned = [], written = Some (file_out (operations eng), render (outputs eng)),
            engine = eng, calls = log\<rparr>
      else \<lparr>returned = render (outputs eng), written = None, engine = clear eng, calls = log\<rparr>)"

text \<open>The report of a run: the text the rendering produced, returned or written.\<close>

definition report :: "Run \<Rightarrow> string" where
  "report r = (case written r of None \<Rightarrow> returned r | Some (path, content) \<Rightarrow> content)"

text \<open>
  The state of the validation loop: the instruction (commands write \<^verbatim>\<open>mod\<close> into it), the
  run state, the outputs, and \<^verbatim>\<open>validated_commands\<close>, an \<^verbatim>\<open>unordered_map\<close> from command to
  flag, kept as an association list whose keys stand in the order of their first insertion.
  \<open>recorded\<close> is a log that the model keeps: the assignments
  \<^verbatim>\<open>validated_commands[command] = flag\<close>, in the order they were made.
\<close>

record Pass =
  inst :: Instruction
  ops :: Operations
  outs :: "Output list"
  validated :: "(Command \<times> Flag) list"
  recorded :: "(Command \<times> Flag) list"

definition resolve :: "CommandsHolder \<Rightarrow> string \<Rightarrow> Command option" where
  "resolve holder flag_name =
     (case get_by_caller holder flag_name of
        None \<Rightarrow> get_by_alias holder flag_name
      | Some command \<Rightarrow> Some command)"

text \<open>
  The validation loop over the flags of the instruction, by index; each flag is copied when
  the loop reaches it. Both \<^verbatim>\<open>break\<close>s end the recursion.
\<close>

fun validate_flags :: "Env \<Rightarrow> CommandsHolder \<Rightarrow> nat list \<Rightarrow> Pass \<Rightarrow> Pass" where
  "validate_flags env holder [] p = p"
| "validate_flags env holder (i # rest) p =
     (case resolve holder (name (inst p ! i)) of
        Some command \<Rightarrow>
          (case validate env command (inst p ! i) (inst p) (ops p) of
             (output, inst1, ops1) \<Rightarrow>
               if is_err output
               then p\<lparr>inst := inst1, ops := ops1\<lparr>is_panicked := True\<rparr>,
                      outs := outs p @ [output]\<rparr>
               else validate_flags env holder rest
                      (p\<lparr>inst := inst1, ops := ops1,
                         validated := AList.update command (inst p ! i) (validated p),
                         recorded := recorded p @ [(command, inst p ! i)]\<rparr>))
      | None \<Rightarrow>
          p\<lparr>ops := (ops p)\<lparr>is_panicked := True\<rparr>,
            outs := outs p @ [new_err (''<ENGINE> Invalid flag: ['' @ name (inst p ! i) @ '']'')]\<rparr>)"

definition source_check :: "Pass \<Rightarrow> Pass" where
  "source_check p =
     (if file_in (ops p) = [] \<and> source (ops p) = []
      then p\<lparr>ops := (ops p)\<lparr>is_panicked := True\<rparr>,
             outs := outs p @ [new_err ''<ENGINE> Source file is invalid!'']\<rparr>
      else p)"

text \<open>
  The order in which \<^verbatim>\<open>for (auto& pair : validated_commands)\<close> visits the map: its entries
  sorted by the rank that the environment gives to their keys.
\<close>

definition iteration :: "Env \<Rightarrow> (Command \<times> Flag) list \<Rightarrow> (Command \<times> Flag) list" where
  "iteration env m = sort_key (\<lambda>pair. map_order env (map fst m) (fst pair)) m"

definition execution_pass :: "Env \<Rightarrow> (Command \<times> Flag) list \<Rightarrow> Operations \<Rightarrow> Output list" where
  "execution_pass env pairs state =
     filter (\<lambda>output. get_message output \<noteq> [])
       (map (\<lambda>pair. execute_command env (fst pair) (snd pair) state) pairs)"

text \<open>\<^verbatim>\<open>Engine::execute\<close> from the validation loop on, for the instruction it works on.\<close>

definition run_instruction :: "Env \<Rightarrow> Engine \<Rightarrow> Instruction \<Rightarrow> Run" where
  "run_instruction env eng instr =
     (let p = source_check
                (validate_flags env (commands eng) [0..<length instr]
                   \<lparr>inst = instr, ops = operations eng, outs = outputs eng,
                    validated = [], recorded = []\<rparr>)
      in if is_panicked (ops p)
         then grab_output (eng\<lparr>outputs := outs p, operations := ops p\<rparr>) []
         else grab_output
                (eng\<lparr>outputs := outs p @ execution_pass env (iteration env (validated p)) (ops p),
                     operations := ops p\<rparr>)
                (iteration env (validated p)))"

text \<open>
  \<^verbatim>\<open>Engine::execute\<close>. \<^verbatim>\<open>inst.get_flag_ptr(0)\<close> is dereferenced unchecked: a null pointer
  there is the fault.
\<close>

datatype fault = Null_dereference

definition push_err :: "Engine \<Rightarrow> string \<Rightarrow> Engine" where
  "push_err eng message = eng\<lparr>outputs := outputs eng @ [new_err message]\<rparr>"

definition execute :: "Env \<Rightarrow> Engine \<Rightarrow> string list \<Rightarrow> fault + Run" where
  "execute env eng raw_args =
     (let instr = from_vec_string (garbage_pos env) raw_args in
      if flag_exists instr ''-i'' ''--input'' then
        (if length instr \<noteq> 1
         then Inr (grab_output (push_err eng ''<ENGINE> Input file flag should be the only one!'') [])
         else case get_flag_ptr instr 0 of
           None \<Rightarrow> Inl Null_dereference
         | Some p \<Rightarrow>
             if is_empty (instr ! p)
             then Inr (grab_output (push_err eng ''<ENGINE> Input file flag requires an argument!'') [])
             else case files env (arg (instr ! p)) of
               None \<Rightarrow>
                 Inr (grab_output
                   (push_err eng ''<ENGINE> Input file flag has invalid file as an argument!'') [])
             | Some raw \<Rightarrow>
                 Inr (run_instruction env eng
                   (from_vec_string (garbage_pos env) (get_words (read_stream raw)))))
      else Inr (run_instruction env eng instr))"

section \<open>An example environment\<close>

text \<open>
  One file, \<^verbatim>\<open>a.txt\<close>, holding \<^verbatim>\<open>ccc a bb\<close>. The map of validated commands is visited
  newest key first, which is what a chained hash table that links each new node at its
  head does for keys in different buckets; \<^verbatim>\<open>std::sort\<close> starts from the input as it is.
\<close>

definition example_env :: Env where
  "example_env =
     \<lparr>files = (\<lambda>file_name. if file_name = ''a.txt'' then Some ''ccc a bb'' else None),
      garbage_pos = 0,
      map_order = (\<lambda>keys key. length (takeWhile (\<lambda>k. k \<noteq> key) (rev keys))),
      sort_order = (\<lambda>xs i. 0),
      size_text = (\<lambda>n. show_nat n @ '' B'')\<rparr>"

section \<open>Invariants used by the proofs\<close>

definition builder_inv :: "nat \<times> Flag list \<times> Flag \<Rightarrow> bool" where
  "builder_inv st =
     (case st of (position, flags, flag) \<Rightarrow>
        sorted_wrt (<) (map pos flags) \<and>
        (if exists_flag flag
         then list_all (\<lambda>f. pos f < pos flag) flags \<and> pos flag < position
         else flags = []))"


definition indexed_inv :: "nat \<times> Flag list \<times> Flag \<Rightarrow> bool" where
  "indexed_inv st =
     (case st of (position, flags, flag) \<Rightarrow>
        map pos flags = [0..<length flags] \<and>
        (if exists_flag flag then pos flag = length flags \<and> position = Suc (length flags)
         else flags = [] \<and> position = 0))"

text \<open>The flag of the last assignment to a command in a log of assignments.\<close>

definition last_recorded :: "(Command \<times> Flag) list \<Rightarrow> Command \<Rightarrow> Flag option" where
  "last_recorded log command =
     (case filter (\<lambda>entry. fst entry = command) log of
        [] \<Rightarrow> None
      | e # es \<Rightarrow> Some (snd (last (e # es))))"

section \<open>The builder as the specification describes it\<close>

text \<open>
  Section 4.1 in its own words, for comparison with \<open>from_vec_string\<close>: empty tokens are
  skipped; tokens that are not flags and stand before the first flag are dropped
  (\<open>split_flags\<close> returns them apart from the groups); each flag token opens a flag whose
  argument is the tokens up to the next flag token, each followed by a space, with one
  trailing character stripped; positions count the flags from 0.
\<close>

fun split_flags :: "string list \<Rightarrow> string list \<times> (string \<times> string list) list" where
  "split_flags [] = ([], [])"
| "split_flags (t # ts) =
     (case split_flags ts of (args, groups) \<Rightarrow>
        if is_flag t then ([], (t, args) # groups) else (t # args, groups))"

definition padded :: "string list \<Rightarrow> string" where
  "padded args = concat (map (\<lambda>a. a @ '' '') args)"

definition numbered :: "nat \<Rightarrow> (string \<times> string list) list \<Rightarrow> Flag list" where
  "numbered k groups =
     map (\<lambda>(i, g). \<lparr>name = fst g, arg = butlast (padded (snd g)), pos = i, modv = 0\<rparr>)
       (enumerate k groups)"

definition build_spec :: "string list \<Rightarrow> Flag list" where
  "build_spec toks = numbered 0 (snd (split_flags (filter (\<lambda>t. t \<noteq> []) toks)))"

section \<open>Positions of the built flags\<close>

lemma pos_parse [simp]: "pos (parse f) = pos f"
  by (simp add: parse_def)

lemma name_parse [simp]: "name (parse f) = name f"
  by (simp add: parse_def)

lemma is_flag_nonempty: "is_flag tok \<Longrightarrow> tok \<noteq> []"
  by (auto simp: is_flag_def)

lemma builder_inv_on_token:
  assumes "builder_inv st" and "tok \<noteq> []"
  shows "builder_inv (on_token u tok st)"
proof -
  obtain position flags flag where st: "st = (position, flags, flag)"
    by (cases st) auto
  show ?thesis
  proof (cases "is_flag tok")
    case True
    with assms st show ?thesis
      by (fastforce simp: builder_inv_def on_token_def exists_flag_def Flag_new_def
          sorted_wrt_append list_all_iff)
  next
    case False
    with assms st show ?thesis
      by (auto simp: builder_inv_def on_token_def exists_flag_def)
  qed
qed

lemma sorted_after_last:
  assumes "builder_inv st"
  shows "sorted_wrt (<) (map pos (fst (snd (on_last b st))))"
proof -
  obtain position flags flag where st: "st = (position, flags, flag)"
    by (cases st) auto
  with assms show ?thesis
    by (auto simp: builder_inv_def on_last_def sorted_wrt_append list_all_iff
        split: if_splits)
qed

lemma from_vec_loop_sorted:
  "builder_inv st \<Longrightarrow> sorted_wrt (<) (map pos (from_vec_loop u toks st))"
proof (induction toks arbitrary: st)
  case Nil
  then show ?case
    by (cases st) (auto simp: builder_inv_def split: if_splits)
next
  case (Cons tok rest)
  show ?case
  proof (cases "tok = []")
    case True
    with Cons show ?thesis by simp
  next
    case False
    note ne = this
    show ?thesis
    proof (cases "rest = []")
      case True
      with ne Cons.prems show ?thesis
        using sorted_after_last [OF builder_inv_on_token [OF Cons.prems ne], of True u]
        by simp
    next
      case False
      with ne Cons.prems show ?thesis
        using Cons.IH [OF builder_inv_on_token [OF Cons.prems ne]]
        by (simp add: on_last_def split: prod.splits)
    qed
  qed
qed

text \<open>
  C7. In the sequence of flags that the builder returns, every position is strictly smaller
  than each position after it: positions never decrease, and two different flags never
  share one.
\<close>

theorem from_vec_string_positions_increase:
  "sorted_wrt (<) (map pos (from_vec_string u vec_s))"
  unfolding from_vec_string_def
  by (rule from_vec_loop_sorted)
    (simp add: builder_inv_def exists_flag_def Flag_new_def)


section \<open>The builder against its description\<close>

lemma numbered_Cons:
  "numbered k (g # groups) =
     \<lparr>name = fst g, arg = butlast (padded (snd g)), pos = k, modv = 0\<rparr> # numbered (Suc k) groups"
  by (simp add: numbered_def)

lemma numbered_Nil [simp]: "numbered k [] = []"
  by (simp add: numbered_def)

lemma padded_Nil: "padded [] = []"
  by (simp add: padded_def)

lemma padded_Cons: "padded (a # args) = a @ '' '' @ padded args"
  by (simp add: padded_def)

lemma parse_fresh:
  "parse \<lparr>name = n, arg = padded args, pos = k, modv = 0\<rparr> =
     \<lparr>name = n, arg = butlast (padded args), pos = k, modv = 0\<rparr>"
  by (simp add: parse_def)

text \<open>The loop from a state whose current flag exists, on tokens that end in a non-empty one.\<close>

lemma from_vec_loop_current:
  assumes "exists_flag f" and "toks \<noteq> []" and "last toks \<noteq> []"
  shows "from_vec_loop u toks (k, fl, f) =
           fl @ parse (f\<lparr>arg := arg f @ padded (fst (split_flags (filter (\<lambda>t. t \<noteq> []) toks)))\<rparr>)
              # numbered k (snd (split_flags (filter (\<lambda>t. t \<noteq> []) toks)))"
  using assms
proof (induction toks arbitrary: k fl f)
  case Nil
  then show ?case by simp
next
  case (Cons tok rest)
  obtain args groups where sp: "split_flags (filter (\<lambda>t. t \<noteq> []) rest) = (args, groups)"
    by (cases "split_flags (filter (\<lambda>t. t \<noteq> []) rest)") auto
  show ?case
  proof (cases "tok = []")
    case True
    with Cons.prems have "rest \<noteq> []" and "last rest \<noteq> []"
      by (auto split: if_splits)
    with Cons.IH [OF Cons.prems(1)] True show ?thesis
      by simp
  next
    case False
    note ne = this
    show ?thesis
    proof (cases "rest = []")
      case True
      with ne Cons.prems(1) show ?thesis
        by (simp add: on_token_def on_last_def exists_flag_def Flag_new_def padded_Nil
            padded_Cons numbered_Cons parse_def)
    next
      case False
      then have lr: "last rest \<noteq> []"
        using Cons.prems(3) by simp
      show ?thesis
      proof (cases "is_flag tok")
        case True
        let ?new = "\<lparr>name = tok, arg = [], pos = k, modv = 0\<rparr>"
        have ex: "exists_flag ?new"
          using ne by (simp add: exists_flag_def)
        have "from_vec_loop u (tok # rest) (k, fl, f) =
                from_vec_loop u rest (k + 1, fl @ [parse f], ?new)"
          using ne False True Cons.prems(1)
          by (simp add: on_token_def on_last_def Flag_new_def)
        also have "\<dots> = (fl @ [parse f]) @
                     parse (?new\<lparr>arg := arg ?new @ padded args\<rparr>) # numbered (k + 1) groups"
          using Cons.IH [OF ex False lr, of "k + 1" "fl @ [parse f]"] sp by simp
        finally show ?thesis
          using ne True sp by (simp add: numbered_Cons parse_fresh padded_Nil padded_Cons)
      next
        case notflag: False
        let ?f = "f\<lparr>arg := arg f @ tok @ '' ''\<rparr>"
        have ex: "exists_flag ?f"
          using Cons.prems(1) by (simp add: exists_flag_def)
        have "from_vec_loop u (tok # rest) (k, fl, f) = from_vec_loop u rest (k, fl, ?f)"
          using ne False notflag Cons.prems(1)
          by (simp add: on_token_def on_last_def)
        also have "\<dots> = fl @ parse (?f\<lparr>arg := arg ?f @ padded args\<rparr>) # numbered k groups"
          using Cons.IH [OF ex False lr, of k fl] sp by simp
        finally show ?thesis
          using ne notflag sp by (simp add: padded_Nil padded_Cons)
      qed
    qed
  qed
qed

text \<open>The loop from its first state, on tokens that hold a flag and end in a non-empty one.\<close>

lemma from_vec_loop_first:
  assumes "list_ex is_flag toks" and "last toks \<noteq> []"
  shows "from_vec_loop u toks (k, [], Flag_new u) =
           numbered k (snd (split_flags (filter (\<lambda>t. t \<noteq> []) toks)))"
  using assms
proof (induction toks arbitrary: k)
  case Nil
  then show ?case by simp
next
  case (Cons tok rest)
  obtain args groups where sp: "split_flags (filter (\<lambda>t. t \<noteq> []) rest) = (args, groups)"
    by (cases "split_flags (filter (\<lambda>t. t \<noteq> []) rest)") auto
  show ?case
  proof (cases "tok = []")
    case True
    then have "\<not> is_flag tok"
      by (simp add: is_flag_def)
    with Cons.prems True have "list_ex is_flag rest" and "last rest \<noteq> []"
      by (auto split: if_splits)
    with Cons.IH True show ?thesis
      by simp
  next
    case False
    note ne = this
    show ?thesis
    proof (cases "is_flag tok")
      case True
      let ?new = "\<lparr>name = tok, arg = [], pos = k, modv = 0\<rparr>"
      have ex: "exists_flag ?new"
        using ne by (simp add: exists_flag_def)
      show ?thesis
      proof (cases "rest = []")
        case True
        with ne \<open>is_flag tok\<close> show ?thesis
          by (simp add: on_token_def on_last_def exists_flag_def Flag_new_def parse_def
              numbered_Cons padded_Nil padded_Cons)
      next
        case False
        then have lr: "last rest \<noteq> []"
          using Cons.prems(2) by simp
        have "from_vec_loop u (tok # rest) (k, [], Flag_new u) =
                from_vec_loop u rest (k + 1, [], ?new)"
          using ne False True
          by (simp add: on_token_def on_last_def exists_flag_def Flag_new_def)
        also have "\<dots> = [] @ parse (?new\<lparr>arg := arg ?new @ padded args\<rparr>)
                       # numbered (k + 1) groups"
          using from_vec_loop_current [OF ex False lr, of u "k + 1" "[]"] sp by simp
        finally show ?thesis
          using ne True sp by (simp add: numbered_Cons parse_fresh padded_Nil padded_Cons)
      qed
    next
      case notflag: False
      with Cons.prems(1) have fl: "list_ex is_flag rest"
        by simp
      then have "rest \<noteq> []"
        by auto
      then have lr: "last rest \<noteq> []"
        using Cons.prems(2) by simp
      have "from_vec_loop u (tok # rest) (k, [], Flag_new u) =
              from_vec_loop u rest (k, [], Flag_new u)"
        using ne notflag \<open>rest \<noteq> []\<close>
        by (simp add: on_token_def on_last_def exists_flag_def Flag_new_def)
      with Cons.IH [OF fl lr, of k] ne notflag sp show ?thesis
        by simp
    qed
  qed
qed

lemma from_vec_string_build_spec:
  "list_ex is_flag toks \<Longrightarrow> last toks \<noteq> [] \<Longrightarrow> from_vec_string u toks = build_spec toks"
  by (simp add: from_vec_string_def build_spec_def from_vec_loop_first)

lemma split_flags_plain_prefix:
  "\<not> list_ex is_flag pre \<Longrightarrow> snd (split_flags (pre @ toks)) = snd (split_flags toks)"
  by (induction pre) (auto split: prod.splits)

lemma last_filter_kept: "P (last xs) \<Longrightarrow> last (filter P xs) = last xs"
  by (induction xs rule: rev_induct) simp_all

text \<open>The two places where the loop leaves the description.\<close>

lemma trailing_empty_token_drops_flag: "from_vec_string u [''-w'', ''''] = []"
  by (simp add: from_vec_string_def on_token_def on_last_def is_flag_def exists_flag_def
      Flag_new_def)

lemma plain_tokens_build_nameless_flag: "from_vec_string u [''abc''] = [Flag_new u]"
  by (simp add: from_vec_string_def on_token_def on_last_def is_flag_def exists_flag_def
      Flag_new_def parse_def)

text \<open>
  C6, as the code has it. For tokens that hold a flag token and end in a non-empty token,
  the builder returns what the description says: empty tokens make no difference, tokens
  that are not flags and stand before the first flag make no difference, and each flag
  token yields one flag, finalised, in order. No token at all yields the empty instruction.
\<close>

theorem builder_follows_description:
  assumes "list_ex is_flag vec_s" and "last vec_s \<noteq> []"
  shows "from_vec_string u vec_s = build_spec vec_s \<and>
         from_vec_string u (filter (\<lambda>t. t \<noteq> []) vec_s) = from_vec_string u vec_s \<and>
         (\<forall>pre. \<not> list_ex is_flag pre \<longrightarrow>
            from_vec_string u (pre @ vec_s) = from_vec_string u vec_s) \<and>
         from_vec_string u [] = []"
proof (intro conjI allI impI)
  show main: "from_vec_string u vec_s = build_spec vec_s"
    using assms by (rule from_vec_string_build_spec)
  have ne: "vec_s \<noteq> []"
    using assms(1) by auto
  have "list_ex is_flag (filter (\<lambda>t. t \<noteq> []) vec_s)"
    using assms(1) by (auto simp: list_ex_iff is_flag_def)
  moreover have "last (filter (\<lambda>t. t \<noteq> []) vec_s) \<noteq> []"
    using assms(2) by (simp add: last_filter_kept)
  ultimately have "from_vec_string u (filter (\<lambda>t. t \<noteq> []) vec_s) =
                     build_spec (filter (\<lambda>t. t \<noteq> []) vec_s)"
    by (rule from_vec_string_build_spec)
  also have "\<dots> = build_spec vec_s"
    by (simp add: build_spec_def)
  finally show "from_vec_string u (filter (\<lambda>t. t \<noteq> []) vec_s) = from_vec_string u vec_s"
    using main by simp
  show "from_vec_string u [] = []"
    by (simp add: from_vec_string_def)
next
  fix pre
  assume plain: "\<not> list_ex is_flag pre"
  have ne: "vec_s \<noteq> []"
    using assms(1) by auto
  have "list_ex is_flag (pre @ vec_s)"
    using assms(1) by simp
  moreover have "last (pre @ vec_s) \<noteq> []"
    using assms(2) ne by simp
  ultimately have "from_vec_string u (pre @ vec_s) = build_spec (pre @ vec_s)"
    by (rule from_vec_string_build_spec)
  also have "\<dots> = build_spec vec_s"
  proof -
    have "\<not> list_ex is_flag (filter (\<lambda>t. t \<noteq> []) pre)"
      using plain by (auto simp: list_ex_iff)
    then show ?thesis
      by (simp add: build_spec_def split_flags_plain_prefix)
  qed
  finally show "from_vec_string u (pre @ vec_s) = from_vec_string u vec_s"
    using from_vec_string_build_spec [OF assms] by simp
qed

theorem builder_follows_description_witness:
  "list_ex is_flag [''x'', '''', ''-f'', ''a'', '''', ''b'', ''-w''] \<and>
   last [''x'', '''', ''-f'', ''a'', '''', ''b'', ''-w''] \<noteq> [] \<and>
   from_vec_string 0 [''x'', '''', ''-f'', ''a'', '''', ''b'', ''-w''] =
     [\<lparr>name = ''-f'', arg = ''a b'', pos = 0, modv = 0\<rparr>,
      \<lparr>name = ''-w'', arg = [], pos = 1, modv = 0\<rparr>]"
proof -
  have a: "list_ex is_flag [''x'', '''', ''-f'', ''a'', '''', ''b'', ''-w'']"
    by (simp add: is_flag_def)
  have b: "last [''x'', '''', ''-f'', ''a'', '''', ''b'', ''-w''] \<noteq> []"
    by simp
  have c: "build_spec [''x'', '''', ''-f'', ''a'', '''', ''b'', ''-w''] =
     [\<lparr>name = ''-f'', arg = ''a b'', pos = 0, modv = 0\<rparr>,
      \<lparr>name = ''-w'', arg = [], pos = 1, modv = 0\<rparr>]"
    by code_simp
  from builder_follows_description [OF a b, of 0] a b c show ?thesis
    by simp
qed

text \<open>
  An empty first token is skipped like any other empty token: the flag after it is built.
\<close>

theorem empty_first_token_counterexample:
  "from_vec_string 0 ['''', ''-w''] = [\<lparr>name = ''-w'', arg = [], pos = 0, modv = 0\<rparr>] \<and>
   from_vec_string 0 ['''', ''-w''] \<noteq> []"
  by (simp add: from_vec_string_def on_token_def on_last_def is_flag_def exists_flag_def
      Flag_new_def parse_def)

section \<open>Rendering\<close>

lemma foldl_render_step: "foldl render_step s os = s @ render os"
proof (induction os arbitrary: s)
  case Nil
  show ?case by (simp add: render_def)
next
  case (Cons out rest)
  have "foldl render_step s (out # rest) = foldl render_step (render_step s out) rest"
    by simp
  also have "\<dots> = render_step s out @ render rest"
    by (rule Cons.IH)
  also have "\<dots> = s @ render_step [] out @ render rest"
    by (simp add: render_step_def)
  also have "render_step [] out @ render rest = render (out # rest)"
    using Cons.IH [of "render_step [] out"] by (simp add: render_def)
  finally show ?case .
qed

lemma render_Nil [simp]: "render [] = []"
  by (simp add: render_def)

lemma render_Cons: "render (out # rest) = render_step [] out @ render rest"
  using foldl_render_step [of "render_step [] out" rest] by (simp add: render_def)

lemma render_append: "render (xs @ ys) = render xs @ render ys"
  using foldl_render_step [of "render xs" ys] by (simp add: render_def)

lemma render_new_err:
  "message \<noteq> [] \<Longrightarrow> render [new_err message] = ''[ERROR]: '' @ message @ nl"
  by (simp add: render_Cons render_step_def new_err_def get_message_def is_ok_def)

text \<open>
  C10. An output with a message is rendered, between the lines of the outputs before it and
  after it, as one line: the label is \<^verbatim>\<open>[SUCCESS]\<close> when its tag is \<open>Ok\<close> and \<^verbatim>\<open>[ERROR]\<close>
  for every other tag, \<open>Undefined\<close> included.
\<close>

theorem render_labels:
  assumes "msg out \<noteq> []"
  shows "render (before @ out # after) =
           render before @
           (if res out = Ok then ''[SUCCESS]'' else ''[ERROR]'') @ '': '' @ msg out @ nl @
           render after"
  using assms
  by (simp add: render_append render_Cons render_step_def get_message_def is_ok_def)

theorem render_labels_witness:
  "msg \<lparr>res = Undefined, msg = ''b''\<rparr> \<noteq> [] \<and>
   render [new_ok ''a'', \<lparr>res = Undefined, msg = ''b''\<rparr>, new_err ''c''] =
     ''[SUCCESS]: a'' @ nl @ ''[ERROR]: b'' @ nl @ ''[ERROR]: c'' @ nl"
proof -
  have h: "msg \<lparr>res = Undefined, msg = ''b''\<rparr> \<noteq> []"
    by simp
  have "render ([new_ok ''a''] @ \<lparr>res = Undefined, msg = ''b''\<rparr> # [new_err ''c'']) =
          render [new_ok ''a''] @
          (if res \<lparr>res = Undefined, msg = ''b''\<rparr> = Ok then ''[SUCCESS]'' else ''[ERROR]'') @
          '': '' @ msg \<lparr>res = Undefined, msg = ''b''\<rparr> @ nl @ render [new_err ''c'']"
    by (rule render_labels [OF h])
  then show ?thesis
    by (simp add: render_Cons render_step_def get_message_def is_ok_def new_ok_def new_err_def)
qed

section \<open>The engine that \<^verbatim>\<open>create_engine\<close> builds\<close>

lemma commands_create_engine:
  "commands create_engine =
     [SourceFile, InputFile, OutputFile, CountChars, CountDigits, CountLines, CountNumbers,
      CountWords, ShowAnagrams, ShowFileSize, ShowPalindromes, ShowWords, ShowWordsReverse,
      WordsConsiderLength]"
  by (simp add: create_engine_def Engine_new_def add_def holder_exists_def holder_add_def)

lemma outputs_create_engine: "outputs create_engine = []"
  by (simp add: create_engine_def Engine_new_def add_def holder_exists_def holder_add_def)

lemma operations_create_engine: "operations create_engine = Operations_new"
  by (simp add: create_engine_def Engine_new_def add_def holder_exists_def holder_add_def)

lemma clear_fresh:
  "outputs eng = [] \<Longrightarrow> operations eng = Operations_new \<Longrightarrow> clear eng = eng"
  by (simp add: clear_def)

lemma clear_push_err:
  "outputs eng = [] \<Longrightarrow> operations eng = Operations_new \<Longrightarrow> clear (push_err eng m) = eng"
  by (simp add: clear_def push_err_def)

section \<open>The input-file flag among other flags\<close>

text \<open>
  C5, as the code has it. On an engine in its fresh state, an instruction that holds the
  input-file flag (\<^verbatim>\<open>-i\<close> or \<^verbatim>\<open>--input\<close>) and more than one flag ends the run before the
  validation loop: the engine returns the one line
  \<^verbatim>\<open>[ERROR]: <ENGINE> Input file flag should be the only one!\<close>, writes no file, calls no
  command and is left in its fresh state, whatever the files are.
\<close>

theorem input_flag_with_others:
  assumes "outputs eng = []" and "operations eng = Operations_new"
    and "flag_exists (from_vec_string (garbage_pos env) raw_args) ''-i'' ''--input''"
    and "1 < length (from_vec_string (garbage_pos env) raw_args)"
  shows "execute env eng raw_args =
           Inr \<lparr>returned = ''[ERROR]: <ENGINE> Input file flag should be the only one!'' @ nl,
                written = None, engine = eng, calls = []\<rparr>"
proof -
  have "render (outputs (push_err eng ''<ENGINE> Input file flag should be the only one!'')) =
          ''[ERROR]: <ENGINE> Input file flag should be the only one!'' @ nl"
    using assms(1) render_new_err [of "''<ENGINE> Input file flag should be the only one!''"]
    by (simp add: push_err_def)
  moreover have "file_out (operations (push_err eng m)) = []" for m
    using assms(2) by (simp add: push_err_def Operations_new_def)
  ultimately show ?thesis
    using assms clear_push_err [OF assms(1,2)]
    by (simp add: execute_def grab_output_def Let_def)
qed

theorem input_flag_with_others_witness:
  "outputs create_engine = [] \<and> operations create_engine = Operations_new \<and>
   flag_exists (from_vec_string (garbage_pos example_env) [''-i'', ''cmds.txt'', ''-w''])
     ''-i'' ''--input'' \<and>
   1 < length (from_vec_string (garbage_pos example_env) [''-i'', ''cmds.txt'', ''-w'']) \<and>
   execute example_env create_engine [''-i'', ''cmds.txt'', ''-w''] =
     Inr \<lparr>returned = ''[ERROR]: <ENGINE> Input file flag should be the only one!'' @ nl,
          written = None, engine = create_engine, calls = []\<rparr>"
proof -
  have a: "flag_exists (from_vec_string (garbage_pos example_env) [''-i'', ''cmds.txt'', ''-w''])
     ''-i'' ''--input''"
    by code_simp
  have b: "1 < length (from_vec_string (garbage_pos example_env) [''-i'', ''cmds.txt'', ''-w''])"
    by code_simp
  show ?thesis
    using input_flag_with_others [OF outputs_create_engine operations_create_engine a b]
      a b outputs_create_engine operations_create_engine
    by simp
qed

text \<open>
  The line that C5 states, without \<^verbatim>\<open><ENGINE>\<close>, is not what the run returns.
\<close>

theorem input_flag_line_counterexample:
  "map_sum id returned (execute example_env create_engine [''-i'', ''cmds.txt'', ''-w'']) =
     Inr (''[ERROR]: <ENGINE> Input file flag should be the only one!'' @ nl) \<and>
   map_sum id returned (execute example_env create_engine [''-i'', ''cmds.txt'', ''-w'']) \<noteq>
     Inr (''[ERROR]: Input file flag should be the only one!'' @ nl)"
  by code_simp

section \<open>The validation loop\<close>

lemma get_flag_ptr_Some:
  "get_flag_ptr instr index = Some p \<Longrightarrow> p < length instr \<and> pos (instr ! p) = index"
proof (induction instr arbitrary: p)
  case Nil
  then show ?case by simp
next
  case (Cons flag rest)
  then show ?case
    by (cases "pos flag = index") auto
qed

lemma map_name_set_modv:
  "p < length instr \<Longrightarrow> map name (instr[p := (instr ! p)\<lparr>modv := m\<rparr>]) = map name instr"
  by (simp add: map_update list_update_same_conv)

lemma validate_keeps:
  assumes "validate env command flag instr state = (out1, instr1, state1)"
  shows "map name instr1 = map name instr \<and> length instr1 = length instr \<and>
         is_panicked state1 = is_panicked state"
proof (cases command)
  case WordsConsiderLength
  with assms show ?thesis
    by (auto split: option.splits if_splits dest!: get_flag_ptr_Some
        simp: map_name_set_modv)
next
  case SourceFile
  with assms show ?thesis
    by (auto split: option.splits if_splits)
qed (use assms in \<open>auto simp: last_with_argument_def split: if_splits\<close>)

lemma validate_flags_keeps:
  "map name (inst (validate_flags env holder idxs p)) = map name (inst p) \<and>
   length (inst (validate_flags env holder idxs p)) = length (inst p)"
proof (induction idxs arbitrary: p)
  case Nil
  show ?case by simp
next
  case (Cons i rest)
  show ?case
  proof (cases "resolve holder (name (inst p ! i))")
    case None
    then show ?thesis by simp
  next
    case (Some command)
    obtain out1 instr1 state1
      where v: "validate env command (inst p ! i) (inst p) (ops p) = (out1, instr1, state1)"
      by (cases "validate env command (inst p ! i) (inst p) (ops p)") auto
    from validate_keeps [OF v] Some v Cons.IH show ?thesis
      by (cases "is_err out1") simp_all
  qed
qed

text \<open>
  A loop that leaves the run state unpanicked took neither \<^verbatim>\<open>break\<close>: it pushed no output,
  and a longer loop continues from where it ended.
\<close>

lemma validate_flags_unpanicked:
  assumes "\<not> is_panicked (ops (validate_flags env holder idxs p))"
  shows "outs (validate_flags env holder idxs p) = outs p \<and>
         validate_flags env holder (idxs @ more_idxs) p =
           validate_flags env holder more_idxs (validate_flags env holder idxs p)"
  using assms
proof (induction idxs arbitrary: p)
  case Nil
  show ?case by simp
next
  case (Cons i rest)
  show ?case
  proof (cases "resolve holder (name (inst p ! i))")
    case None
    with Cons.prems show ?thesis by simp
  next
    case (Some command)
    obtain out1 instr1 state1
      where v: "validate env command (inst p ! i) (inst p) (ops p) = (out1, instr1, state1)"
      by (cases "validate env command (inst p ! i) (inst p) (ops p)") auto
    show ?thesis
    proof (cases "is_err out1")
      case True
      with Cons.prems Some v show ?thesis by simp
    next
      case False
      with Cons.prems Some v Cons.IH show ?thesis by simp
    qed
  qed
qed

lemma report_grab_output: "report (grab_output eng log) = render (outputs eng)"
  by (simp add: report_def grab_output_def)

lemma calls_grab_output: "calls (grab_output eng log) = log"
  by (simp add: grab_output_def)

section \<open>The source-readiness check\<close>

text \<open>
  C4, as the code has it. The check runs when the validation loop has ended, whether the
  loop completed or took a \<^verbatim>\<open>break\<close>: the report is the lines of the loop's outputs,
  followed by \<^verbatim>\<open>[ERROR]: <ENGINE> Source file is invalid!\<close> exactly when the loop left both
  \<^verbatim>\<open>file_in\<close> and \<^verbatim>\<open>source\<close> empty, and otherwise by nothing (the loop panicked) or by the
  lines of the execution pass.
\<close>

theorem source_check_report:
  "report (run_instruction env eng instr) =
     render (outs (validate_flags env (commands eng) [0..<length instr]
                \<lparr>inst = instr, ops = operations eng, outs = outputs eng,
                 validated = [], recorded = []\<rparr>)) @
     (if file_in (ops (validate_flags env (commands eng) [0..<length instr]
                \<lparr>inst = instr, ops = operations eng, outs = outputs eng,
                 validated = [], recorded = []\<rparr>)) = [] \<and>
         source (ops (validate_flags env (commands eng) [0..<length instr]
                \<lparr>inst = instr, ops = operations eng, outs = outputs eng,
                 validated = [], recorded = []\<rparr>)) = []
      then ''[ERROR]: <ENGINE> Source file is invalid!'' @ nl
      else if is_panicked (ops (validate_flags env (commands eng) [0..<length instr]
                \<lparr>inst = instr, ops = operations eng, outs = outputs eng,
                 validated = [], recorded = []\<rparr>))
      then []
      else render (execution_pass env
             (iteration env (validated (validate_flags env (commands eng) [0..<length instr]
                \<lparr>inst = instr, ops = operations eng, outs = outputs eng,
                 validated = [], recorded = []\<rparr>)))
             (ops (validate_flags env (commands eng) [0..<length instr]
                \<lparr>inst = instr, ops = operations eng, outs = outputs eng,
                 validated = [], recorded = []\<rparr>))))"
proof -
  define p where "p = validate_flags env (commands eng) [0..<length instr]
                \<lparr>inst = instr, ops = operations eng, outs = outputs eng,
                 validated = [], recorded = []\<rparr>"
  have "report (run_instruction env eng instr) =
     render (outs p) @
     (if file_in (ops p) = [] \<and> source (ops p) = []
      then ''[ERROR]: <ENGINE> Source file is invalid!'' @ nl
      else if is_panicked (ops p) then []
      else render (execution_pass env (iteration env (validated p)) (ops p)))"
    unfolding run_instruction_def p_def [symmetric] Let_def
    by (simp add: source_check_def report_grab_output render_append render_new_err)
  then show ?thesis
    unfolding p_def .
qed

text \<open>
  A run that panicked at an unknown flag, with no source bound, gets the error of the check
  as a second line.
\<close>

theorem source_check_counterexample:
  "map_sum id report (execute example_env create_engine [''-z'']) =
     Inr (''[ERROR]: <ENGINE> Invalid flag: [-z]'' @ nl @
          ''[ERROR]: <ENGINE> Source file is invalid!'' @ nl)"
  by code_simp

section \<open>An unrecognised flag\<close>

lemma validate_flags_stops_at_unresolved:
  assumes "k < length (inst p)"
    and "resolve holder (name (inst p ! k)) = None"
    and "\<not> is_panicked (ops (validate_flags env holder [0..<k] p))"
  shows "validate_flags env holder [0..<length (inst p)] p =
           (validate_flags env holder [0..<k] p)
             \<lparr>ops := (ops (validate_flags env holder [0..<k] p))\<lparr>is_panicked := True\<rparr>,
              outs := outs p @ [new_err (''<ENGINE> Invalid flag: ['' @ name (inst p ! k) @ '']'')]\<rparr>"
proof -
  define q where "q = validate_flags env holder [0..<k] p"
  have split: "[0..<length (inst p)] = [0..<k] @ k # [Suc k..<length (inst p)]"
    using assms(1) by (metis le_add1 less_imp_add_positive upt_add_eq_append upt_conv_Cons
        zero_le)
  have names: "map name (inst q) = map name (inst p)" and len: "length (inst q) = length (inst p)"
    using validate_flags_keeps [of env holder "[0..<k]" p] by (simp_all add: q_def)
  have "name (inst q ! k) = map name (inst q) ! k"
    using assms(1) len by simp
  also have "\<dots> = name (inst p ! k)"
    using assms(1) names by simp
  finally have nm: "name (inst q ! k) = name (inst p ! k)" .
  have outs_q: "outs q = outs p"
    using validate_flags_unpanicked [OF assms(3)] by (simp add: q_def)
  have "validate_flags env holder [0..<length (inst p)] p =
          validate_flags env holder (k # [Suc k..<length (inst p)]) q"
    using validate_flags_unpanicked [OF assms(3), of "k # [Suc k..<length (inst p)]"] split
    by (simp add: q_def)
  also have "\<dots> = q\<lparr>ops := (ops q)\<lparr>is_panicked := True\<rparr>,
              outs := outs p @ [new_err (''<ENGINE> Invalid flag: ['' @ name (inst p ! k) @ '']'')]\<rparr>"
    using assms(2) nm outs_q by simp
  finally show ?thesis
    by (simp add: q_def)
qed

text \<open>
  C3, as the code has it. On an engine in its fresh state, let the flag at index \<open>k\<close> of the
  instruction have a name that no registered command has as caller or alias, let the loop
  over the flags before it leave the run unpanicked (each of them resolved and validated),
  and let a source be bound by then. Then the report is the one line
  \<^verbatim>\<open>[ERROR]: <ENGINE> Invalid flag: [name]\<close>.
\<close>

theorem invalid_flag_report:
  assumes "outputs eng = []" and "operations eng = Operations_new"
    and "k < length instr"
    and "resolve (commands eng) (name (instr ! k)) = None"
    and "\<not> is_panicked (ops (validate_flags env (commands eng) [0..<k]
            \<lparr>inst = instr, ops = operations eng, outs = outputs eng,
             validated = [], recorded = []\<rparr>))"
    and "file_in (ops (validate_flags env (commands eng) [0..<k]
            \<lparr>inst = instr, ops = operations eng, outs = outputs eng,
             validated = [], recorded = []\<rparr>)) \<noteq> [] \<or>
         source (ops (validate_flags env (commands eng) [0..<k]
            \<lparr>inst = instr, ops = operations eng, outs = outputs eng,
             validated = [], recorded = []\<rparr>)) \<noteq> []"
  shows "report (run_instruction env eng instr) =
           ''[ERROR]: <ENGINE> Invalid flag: ['' @ name (instr ! k) @ '']'' @ nl"
proof -
  define p where "p = \<lparr>inst = instr, ops = operations eng, outs = outputs eng,
             validated = [], recorded = ([] :: (Command \<times> Flag) list)\<rparr>"
  define q where "q = validate_flags env (commands eng) [0..<k] p"
  have loop: "validate_flags env (commands eng) [0..<length instr] p =
          q\<lparr>ops := (ops q)\<lparr>is_panicked := True\<rparr>,
            outs := [new_err (''<ENGINE> Invalid flag: ['' @ name (instr ! k) @ '']'')]\<rparr>"
    using validate_flags_stops_at_unresolved [of k p "commands eng" env] assms(1,3,4,5)
    by (simp add: p_def q_def)
  have bound: "\<not> (file_in (ops q) = [] \<and> source (ops q) = [])"
    using assms(6) by (simp add: p_def q_def)
  have check: "source_check (q\<lparr>ops := (ops q)\<lparr>is_panicked := True\<rparr>,
            outs := [new_err (''<ENGINE> Invalid flag: ['' @ name (instr ! k) @ '']'')]\<rparr>) =
          q\<lparr>ops := (ops q)\<lparr>is_panicked := True\<rparr>,
            outs := [new_err (''<ENGINE> Invalid flag: ['' @ name (instr ! k) @ '']'')]\<rparr>"
    using bound by (auto simp: source_check_def)
  show ?thesis
    unfolding run_instruction_def p_def [symmetric] loop check Let_def
    by (simp add: report_grab_output render_new_err)
qed

theorem invalid_flag_report_witness:
  "report (run_instruction example_env create_engine
     (from_vec_string 0 [''-f'', ''a.txt'', ''-w'', ''-z'', ''-c''])) =
     ''[ERROR]: <ENGINE> Invalid flag: [-z]'' @ nl"
proof -
  define instr where "instr = from_vec_string 0 [''-f'', ''a.txt'', ''-w'', ''-z'', ''-c'']"
  have k: "2 < length instr"
    unfolding instr_def by code_simp
  have un: "resolve (commands create_engine) (name (instr ! 2)) = None"
    unfolding instr_def by code_simp
  have ok: "\<not> is_panicked (ops (validate_flags example_env (commands create_engine) [0..<2]
            \<lparr>inst = instr, ops = operations create_engine, outs = outputs create_engine,
             validated = [], recorded = []\<rparr>))"
    unfolding instr_def by code_simp
  have src: "file_in (ops (validate_flags example_env (commands create_engine) [0..<2]
            \<lparr>inst = instr, ops = operations create_engine, outs = outputs create_engine,
             validated = [], recorded = []\<rparr>)) \<noteq> [] \<or>
         source (ops (validate_flags example_env (commands create_engine) [0..<2]
            \<lparr>inst = instr, ops = operations create_engine, outs = outputs create_engine,
             validated = [], recorded = []\<rparr>)) \<noteq> []"
    unfolding instr_def by code_simp
  have nm: "name (instr ! 2) = ''-z''"
    unfolding instr_def by code_simp
  have "report (run_instruction example_env create_engine instr) =
          ''[ERROR]: <ENGINE> Invalid flag: ['' @ name (instr ! 2) @ '']'' @ nl"
    by (rule invalid_flag_report [OF outputs_create_engine operations_create_engine k un ok src])
  then have "report (run_instruction example_env create_engine instr) =
          ''[ERROR]: <ENGINE> Invalid flag: ['' @ ''-z'' @ '']'' @ nl"
    unfolding nm .
  then show ?thesis
    unfolding instr_def by simp
qed

text \<open>
  The line that C3 states lacks \<^verbatim>\<open><ENGINE>\<close>; and with a source bound, an unknown flag that
  stands after a flag whose validation fails is never reached.
\<close>

theorem invalid_flag_counterexample:
  "map_sum id report (execute example_env create_engine [''-f'', ''a.txt'', ''-z'']) =
     Inr (''[ERROR]: <ENGINE> Invalid flag: [-z]'' @ nl) \<and>
   map_sum id report (execute example_env create_engine [''-f'', ''a.txt'', ''-z'']) \<noteq>
     Inr (''[ERROR]: Invalid flag: [-z]'' @ nl) \<and>
   map_sum id report (execute example_env create_engine [''-f'', ''a.txt'', ''-l'', ''-z'']) =
     Inr (''[ERROR]: <-l> Missing required flag after this one!'' @ nl)"
  by code_simp

section \<open>Sorting by length\<close>

lemma read_loop_eq: "read_loop s line = line @ s @ nl"
  by (induction s arbitrary: line) (simp_all add: nl_def)

lemma read_stream_eq: "read_stream raw = raw @ nl"
  by (simp add: read_stream_def read_loop_eq)

lemma mset_insert_by: "mset (insert_by cmp x ys) = add_mset x (mset ys)"
  by (induction ys) simp_all

lemma mset_insertion_sort: "mset (foldr (insert_by cmp) xs []) = mset xs"
  by (induction xs) (simp_all add: mset_insert_by)

lemma mset_arrange: "mset (arrange rank xs) = mset xs"
proof -
  have "mset (arrange rank xs) = image_mset snd (mset (enumerate 0 xs))"
    by (simp add: arrange_def)
  also have "\<dots> = mset (map snd (enumerate 0 xs))"
    by (simp only: mset_map)
  finally show ?thesis
    by (simp only: map_snd_enumerate)
qed

lemma mset_std_sort: "mset (std_sort env cmp xs) = mset xs"
  by (simp add: std_sort_def mset_insertion_sort mset_arrange)

lemma set_insert_by: "set (insert_by cmp x ys) = insert x (set ys)"
  by (induction ys) auto

lemma sorted_insert_by_length:
  "sorted (map length ys) \<Longrightarrow>
   sorted (map length (insert_by (\<lambda>left right. length left < length right) x ys))"
  by (induction ys) (auto simp: set_insert_by)

lemma sorted_insertion_sort_length:
  "sorted (map length (foldr (insert_by (\<lambda>left right. length left < length right)) xs []))"
  by (induction xs) (simp_all add: sorted_insert_by_length)

lemma sorted_std_sort_length:
  "sorted (map length (std_sort env (get_default True) xs))"
  by (simp add: std_sort_def get_default_def sorted_insertion_sort_length)

lemma is_flag_literals:
  "is_flag ''-f''" "is_flag ''-l''" "is_flag ''-s''"
  by (simp_all add: is_flag_def)

lemma build_f_l_s:
  assumes "path \<noteq> []" and "\<not> is_flag path"
  shows "from_vec_string g [''-f'', path, ''-l'', ''-s''] =
           [\<lparr>name = ''-f'', arg = path, pos = 0, modv = 0\<rparr>,
            \<lparr>name = ''-l'', arg = [], pos = 1, modv = 0\<rparr>,
            \<lparr>name = ''-s'', arg = [], pos = 2, modv = 0\<rparr>]"
  using assms
  by (simp add: from_vec_string_def on_token_def on_last_def is_flag_literals exists_flag_def
      parse_def Flag_new_def)

lemma build_f_l:
  assumes "path \<noteq> []" and "\<not> is_flag path"
  shows "from_vec_string g [''-f'', path, ''-l''] =
           [\<lparr>name = ''-f'', arg = path, pos = 0, modv = 0\<rparr>,
            \<lparr>name = ''-l'', arg = [], pos = 1, modv = 0\<rparr>]"
  using assms
  by (simp add: from_vec_string_def on_token_def on_last_def is_flag_literals exists_flag_def
      parse_def Flag_new_def)


lemma loop_f_l_s:
  assumes "files env path = Some raw" and "path \<noteq> []"
  shows "validate_flags env (commands create_engine) [0, 1, 2]
           \<lparr>inst = [\<lparr>name = ''-f'', arg = path, pos = 0, modv = 0\<rparr>,
                    \<lparr>name = ''-l'', arg = [], pos = 1, modv = 0\<rparr>,
                    \<lparr>name = ''-s'', arg = [], pos = 2, modv = 0\<rparr>],
            ops = Operations_new, outs = [], validated = [], recorded = []\<rparr> =
         \<lparr>inst = [\<lparr>name = ''-f'', arg = path, pos = 0, modv = 0\<rparr>,
                  \<lparr>name = ''-l'', arg = [], pos = 1, modv = 0\<rparr>,
                  \<lparr>name = ''-s'', arg = [], pos = 2, modv = 1\<rparr>],
          ops = \<lparr>file_in = path, file_out = [], source = read_stream raw, is_panicked = False\<rparr>,
          outs = [],
          validated = [(SourceFile, \<lparr>name = ''-f'', arg = path, pos = 0, modv = 0\<rparr>),
                       (WordsConsiderLength, \<lparr>name = ''-l'', arg = [], pos = 1, modv = 0\<rparr>),
                       (ShowWords, \<lparr>name = ''-s'', arg = [], pos = 2, modv = 1\<rparr>)],
          recorded = [(SourceFile, \<lparr>name = ''-f'', arg = path, pos = 0, modv = 0\<rparr>),
                      (WordsConsiderLength, \<lparr>name = ''-l'', arg = [], pos = 1, modv = 0\<rparr>),
                      (ShowWords, \<lparr>name = ''-s'', arg = [], pos = 2, modv = 1\<rparr>)]\<rparr>"
  using assms
  by (simp add: commands_create_engine resolve_def get_by_caller_def get_by_alias_def
      name_in_def is_err_def new_ok_def new_err_def Operations_new_def)

lemma loop_f_l:
  assumes "files env path = Some raw" and "path \<noteq> []"
  shows "validate_flags env (commands create_engine) [0, 1]
           \<lparr>inst = [\<lparr>name = ''-f'', arg = path, pos = 0, modv = 0\<rparr>,
                    \<lparr>name = ''-l'', arg = [], pos = 1, modv = 0\<rparr>],
            ops = Operations_new, outs = [], validated = [], recorded = []\<rparr> =
         \<lparr>inst = [\<lparr>name = ''-f'', arg = path, pos = 0, modv = 0\<rparr>,
                  \<lparr>name = ''-l'', arg = [], pos = 1, modv = 0\<rparr>],
          ops = \<lparr>file_in = path, file_out = [], source = read_stream raw, is_panicked = True\<rparr>,
          outs = [new_err (''<-l> This flag can't be the last one!'')],
          validated = [(SourceFile, \<lparr>name = ''-f'', arg = path, pos = 0, modv = 0\<rparr>)],
          recorded = [(SourceFile, \<lparr>name = ''-f'', arg = path, pos = 0, modv = 0\<rparr>)]\<rparr>"
  using assms
  by (simp add: commands_create_engine resolve_def get_by_caller_def get_by_alias_def
      name_in_def is_err_def new_ok_def new_err_def Operations_new_def flag_string_stream_def)

lemma mset_iteration: "mset (iteration env m) = mset m"
  by (simp add: iteration_def)

lemma execution_pass_only_sorted:
  assumes "mset pairs = {#(SourceFile, f0), (WordsConsiderLength, f1), (ShowWords, f2)#}"
  shows "execution_pass env pairs state = [execute_command env ShowWords f2 state]"
proof -
  have "mset (execution_pass env pairs state) =
          filter_mset (\<lambda>out. get_message out \<noteq> [])
            (image_mset (\<lambda>pair. execute_command env (fst pair) (snd pair) state) (mset pairs))"
    by (simp add: execution_pass_def)
  also have "\<dots> = {#execute_command env ShowWords f2 state#}"
    unfolding assms
    by (simp add: get_message_def new_ok_def flag_string_stream_structure_def
        flag_string_stream_def)
  finally show ?thesis
    by simp
qed

lemma run_f_l_s:
  assumes "files env path = Some raw" and "path \<noteq> []"
  shows "run_instruction env create_engine
           [\<lparr>name = ''-f'', arg = path, pos = 0, modv = 0\<rparr>,
            \<lparr>name = ''-l'', arg = [], pos = 1, modv = 0\<rparr>,
            \<lparr>name = ''-s'', arg = [], pos = 2, modv = 0\<rparr>] =
         grab_output
           (create_engine
              \<lparr>outputs :=
                 [new_ok (flag_string_stream_structure
                    \<lparr>name = ''-s'', arg = [], pos = 2, modv = 1\<rparr>
                    (std_sort env (get_default True) (get_words (raw @ nl))))],
               operations :=
                 \<lparr>file_in = path, file_out = [], source = read_stream raw,
                  is_panicked = False\<rparr>\<rparr>)
           (iteration env
              [(SourceFile, \<lparr>name = ''-f'', arg = path, pos = 0, modv = 0\<rparr>),
               (WordsConsiderLength, \<lparr>name = ''-l'', arg = [], pos = 1, modv = 0\<rparr>),
               (ShowWords, \<lparr>name = ''-s'', arg = [], pos = 2, modv = 1\<rparr>)])"
proof -
  let ?s = "\<lparr>name = ''-s'', arg = [], pos = 2, modv = 1\<rparr>"
  let ?state = "\<lparr>file_in = path, file_out = [], source = read_stream raw, is_panicked = False\<rparr>"
  let ?ws = "std_sort env (get_default True) (get_words (raw @ nl))"
  let ?m = "[(SourceFile, \<lparr>name = ''-f'', arg = path, pos = 0, modv = 0\<rparr>),
             (WordsConsiderLength, \<lparr>name = ''-l'', arg = [], pos = 1, modv = 0\<rparr>),
             (ShowWords, ?s)]"
  let ?instr = "[\<lparr>name = ''-f'', arg = path, pos = 0, modv = 0\<rparr>,
            \<lparr>name = ''-l'', arg = [], pos = 1, modv = 0\<rparr>,
            \<lparr>name = ''-s'', arg = [], pos = 2, modv = 0\<rparr>]"
  let ?P = "\<lparr>inst = [\<lparr>name = ''-f'', arg = path, pos = 0, modv = 0\<rparr>,
                  \<lparr>name = ''-l'', arg = [], pos = 1, modv = 0\<rparr>, ?s],
          ops = ?state, outs = [], validated = ?m, recorded = ?m\<rparr>"
  have pass: "execution_pass env (iteration env ?m) ?state =
                [new_ok (flag_string_stream_structure ?s ?ws)]"
    using execution_pass_only_sorted [of "iteration env ?m" _ _ ?s env ?state]
    by (simp add: mset_iteration read_stream_eq)
  have len: "[0..<length ?instr] = [0, 1, 2]"
    by (simp add: numeral_2_eq_2)
  have loop: "validate_flags env (commands create_engine) [0..<length ?instr]
                \<lparr>inst = ?instr, ops = Operations_new, outs = [], validated = [], recorded = []\<rparr> = ?P"
    unfolding len by (rule loop_f_l_s [OF assms])
  have check: "source_check ?P = ?P"
    using assms(2) by (simp add: source_check_def)
  show ?thesis
    unfolding run_instruction_def operations_create_engine outputs_create_engine loop check
      Let_def
    by (simp only: Pass.select_convs Operations.select_convs if_False pass append.simps)
qed

lemma run_f_l:
  assumes "files env path = Some raw" and "path \<noteq> []"
  shows "run_instruction env create_engine
           [\<lparr>name = ''-f'', arg = path, pos = 0, modv = 0\<rparr>,
            \<lparr>name = ''-l'', arg = [], pos = 1, modv = 0\<rparr>] =
         grab_output
           (create_engine
              \<lparr>outputs := [new_err (''<-l> This flag can't be the last one!'')],
               operations :=
                 \<lparr>file_in = path, file_out = [], source = read_stream raw,
                  is_panicked = True\<rparr>\<rparr>)
           []"
proof -
  let ?state = "\<lparr>file_in = path, file_out = [], source = read_stream raw, is_panicked = True\<rparr>"
  let ?m = "[(SourceFile, \<lparr>name = ''-f'', arg = path, pos = 0, modv = 0\<rparr>)]"
  let ?instr = "[\<lparr>name = ''-f'', arg = path, pos = 0, modv = 0\<rparr>,
            \<lparr>name = ''-l'', arg = [], pos = 1, modv = 0\<rparr>]"
  let ?P = "\<lparr>inst = ?instr, ops = ?state,
          outs = [new_err (''<-l> This flag can't be the last one!'')],
          validated = ?m, recorded = ?m\<rparr>"
  have len: "[0..<length ?instr] = [0, 1]"
    by simp
  have loop: "validate_flags env (commands create_engine) [0..<length ?instr]
                \<lparr>inst = ?instr, ops = Operations_new, outs = [], validated = [], recorded = []\<rparr> = ?P"
    unfolding len by (rule loop_f_l [OF assms])
  have check: "source_check ?P = ?P"
    using assms(2) by (simp add: source_check_def)
  show ?thesis
    unfolding run_instruction_def operations_create_engine outputs_create_engine loop check
      Let_def
    by (simp only: Pass.select_convs Operations.select_convs if_True)
qed

text \<open>
  C2, as the code has it. With a source bound by \<^verbatim>\<open>-f\<close>, the sequence \<^verbatim>\<open>-l -s\<close> (the
  modifier first) returns the words of the source as the one structure of \<^verbatim>\<open>-s\<close>, in
  ascending order of length: a rearrangement of the words whose lengths never decrease.
  And \<^verbatim>\<open>-l\<close> as the last flag returns the one line
  \<^verbatim>\<open>[ERROR]: <-l> This flag can't be the last one!\<close>.
\<close>

theorem length_modifier:
  assumes "files env path = Some raw" and "path \<noteq> []" and "\<not> is_flag path"
  shows "(\<exists>ws. mset ws = mset (get_words (raw @ nl)) \<and> sorted (map length ws) \<and>
            map_sum id returned (execute env create_engine [''-f'', path, ''-l'', ''-s'']) =
              Inr (''[SUCCESS]: '' @
                   flag_string_stream_structure
                     \<lparr>name = ''-s'', arg = [], pos = 2, modv = 1\<rparr> ws @ nl)) \<and>
         map_sum id returned (execute env create_engine [''-f'', path, ''-l'']) =
           Inr (''[ERROR]: <-l> This flag can't be the last one!'' @ nl)"
proof (intro conjI)
  let ?s = "\<lparr>name = ''-s'', arg = [], pos = 2, modv = 1\<rparr>"
  let ?ws = "std_sort env (get_default True) (get_words (raw @ nl))"
  have "execute env create_engine [''-f'', path, ''-l'', ''-s''] =
          Inr (run_instruction env create_engine
            [\<lparr>name = ''-f'', arg = path, pos = 0, modv = 0\<rparr>,
             \<lparr>name = ''-l'', arg = [], pos = 1, modv = 0\<rparr>,
             \<lparr>name = ''-s'', arg = [], pos = 2, modv = 0\<rparr>])"
    using assms by (simp add: execute_def build_f_l_s flag_exists_def)
  then have "map_sum id returned (execute env create_engine [''-f'', path, ''-l'', ''-s'']) =
          Inr (render [new_ok (flag_string_stream_structure ?s ?ws)])"
    unfolding run_f_l_s [OF assms(1,2)] by (simp add: grab_output_def)
  also have "render [new_ok (flag_string_stream_structure ?s ?ws)] =
               ''[SUCCESS]: '' @ flag_string_stream_structure ?s ?ws @ nl"
    by (simp add: render_Cons render_step_def get_message_def is_ok_def new_ok_def
        flag_string_stream_structure_def flag_string_stream_def)
  finally show "\<exists>ws. mset ws = mset (get_words (raw @ nl)) \<and> sorted (map length ws) \<and>
            map_sum id returned (execute env create_engine [''-f'', path, ''-l'', ''-s'']) =
              Inr (''[SUCCESS]: '' @ flag_string_stream_structure ?s ws @ nl)"
    using mset_std_sort [of env "get_default True" "get_words (raw @ nl)"]
      sorted_std_sort_length [of env "get_words (raw @ nl)"]
    by blast
next
  have "execute env create_engine [''-f'', path, ''-l''] =
          Inr (run_instruction env create_engine
            [\<lparr>name = ''-f'', arg = path, pos = 0, modv = 0\<rparr>,
             \<lparr>name = ''-l'', arg = [], pos = 1, modv = 0\<rparr>])"
    using assms by (simp add: execute_def build_f_l flag_exists_def)
  then have "map_sum id returned (execute env create_engine [''-f'', path, ''-l'']) =
          Inr (render [new_err (''<-l> This flag can't be the last one!'')])"
    unfolding run_f_l [OF assms(1,2)] by (simp add: grab_output_def)
  then show "map_sum id returned (execute env create_engine [''-f'', path, ''-l'']) =
           Inr (''[ERROR]: <-l> This flag can't be the last one!'' @ nl)"
    by (simp add: render_new_err)
qed

theorem length_modifier_witness:
  "(\<exists>ws. mset ws = mset (get_words (''ccc a bb'' @ nl)) \<and> sorted (map length ws) \<and>
      map_sum id returned (execute example_env create_engine [''-f'', ''a.txt'', ''-l'', ''-s'']) =
        Inr (''[SUCCESS]: '' @
             flag_string_stream_structure
               \<lparr>name = ''-s'', arg = [], pos = 2, modv = 1\<rparr> ws @ nl)) \<and>
   map_sum id returned (execute example_env create_engine [''-f'', ''a.txt'', ''-l'']) =
     Inr (''[ERROR]: <-l> This flag can't be the last one!'' @ nl)"
proof -
  have a: "files example_env ''a.txt'' = Some ''ccc a bb''"
    by (simp add: example_env_def)
  have b: "''a.txt'' \<noteq> []"
    by simp
  have c: "\<not> is_flag ''a.txt''"
    by (simp add: is_flag_def)
  show ?thesis
    by (rule length_modifier [OF a b c])
qed

text \<open>
  In the order that C2 states, \<^verbatim>\<open>-s -l\<close>, the modifier is the last flag: the run reports
  its error, with the name of the flag in it, and no words.
\<close>

theorem length_modifier_counterexample:
  "map_sum id report (execute example_env create_engine [''-f'', ''a.txt'', ''-s'', ''-l'']) =
     Inr (''[ERROR]: <-l> This flag can't be the last one!'' @ nl)"
  by code_simp

section \<open>The execution pass\<close>

lemma last_recorded_snoc:
  "last_recorded (log @ [(c, f)]) = (last_recorded log)(c \<mapsto> f)"
proof
  fix d
  show "last_recorded (log @ [(c, f)]) d = ((last_recorded log)(c \<mapsto> f)) d"
    by (cases "filter (\<lambda>entry. fst entry = d) log")
      (auto simp: last_recorded_def split: list.splits)
qed

text \<open>
  The map of validated commands holds, for each command, the flag of its last assignment,
  and holds each command once.
\<close>

lemma validate_flags_validated:
  assumes "map_of (validated p) = last_recorded (recorded p)"
    and "distinct (map fst (validated p))"
  shows "map_of (validated (validate_flags env holder idxs p)) =
           last_recorded (recorded (validate_flags env holder idxs p)) \<and>
         distinct (map fst (validated (validate_flags env holder idxs p)))"
  using assms
proof (induction idxs arbitrary: p)
  case Nil
  then show ?case by simp
next
  case (Cons i rest)
  show ?case
  proof (cases "resolve holder (name (inst p ! i))")
    case None
    with Cons.prems show ?thesis by simp
  next
    case (Some command)
    obtain out1 instr1 state1
      where v: "validate env command (inst p ! i) (inst p) (ops p) = (out1, instr1, state1)"
      by (cases "validate env command (inst p ! i) (inst p) (ops p)") auto
    show ?thesis
    proof (cases "is_err out1")
      case True
      with Cons.prems Some v show ?thesis by simp
    next
      case False
      let ?p' = "p\<lparr>inst := instr1, ops := state1,
                   validated := AList.update command (inst p ! i) (validated p),
                   recorded := recorded p @ [(command, inst p ! i)]\<rparr>"
      have "map_of (validated ?p') = last_recorded (recorded ?p')"
        using Cons.prems(1) by (simp add: update_conv' last_recorded_snoc)
      moreover have "distinct (map fst (validated ?p'))"
        using Cons.prems(2) by (simp add: distinct_update)
      ultimately show ?thesis
        using Cons.IH [of ?p'] Some v False by simp
    qed
  qed
qed

lemma source_check_unpanicked:
  "\<not> is_panicked (ops (source_check p)) \<Longrightarrow> source_check p = p"
  by (auto simp: source_check_def split: if_splits)

lemma calls_run_instruction:
  assumes "\<not> is_panicked (ops (source_check (validate_flags env (commands eng) [0..<length instr]
              \<lparr>inst = instr, ops = operations eng, outs = outputs eng,
               validated = [], recorded = []\<rparr>)))"
  shows "calls (run_instruction env eng instr) =
           iteration env (validated (validate_flags env (commands eng) [0..<length instr]
              \<lparr>inst = instr, ops = operations eng, outs = outputs eng,
               validated = [], recorded = []\<rparr>))"
  using assms source_check_unpanicked [OF assms]
  by (simp add: run_instruction_def Let_def calls_grab_output)

text \<open>
  C9. In a run that reaches the execution pass, no command is called twice, and each
  command that is called gets the flag of the last assignment made for it during
  validation.
\<close>

theorem one_call_per_command:
  assumes "\<not> is_panicked (ops (source_check (validate_flags env (commands eng) [0..<length instr]
              \<lparr>inst = instr, ops = operations eng, outs = outputs eng,
               validated = [], recorded = []\<rparr>)))"
  shows "distinct (map fst (calls (run_instruction env eng instr))) \<and>
         list_all
           (\<lambda>call. last_recorded
              (recorded (validate_flags env (commands eng) [0..<length instr]
                 \<lparr>inst = instr, ops = operations eng, outs = outputs eng,
                  validated = [], recorded = []\<rparr>))
              (fst call) = Some (snd call))
           (calls (run_instruction env eng instr))"
proof -
  define p where "p = validate_flags env (commands eng) [0..<length instr]
              \<lparr>inst = instr, ops = operations eng, outs = outputs eng,
               validated = [], recorded = []\<rparr>"
  have inv: "map_of (validated p) = last_recorded (recorded p)"
    and dist: "distinct (map fst (validated p))"
    using validate_flags_validated [of "\<lparr>inst = instr, ops = operations eng,
        outs = outputs eng, validated = [], recorded = []\<rparr>" env "commands eng"
        "[0..<length instr]"]
    by (simp_all add: p_def last_recorded_def fun_eq_iff)
  have c: "calls (run_instruction env eng instr) = iteration env (validated p)"
    using calls_run_instruction [OF assms] by (simp add: p_def)
  have "mset (map fst (iteration env (validated p))) = mset (map fst (validated p))"
    by (simp add: iteration_def)
  then have d: "distinct (map fst (iteration env (validated p)))"
    using dist by (metis mset_eq_imp_distinct_iff)
  have "set (iteration env (validated p)) = set (validated p)"
    by (simp add: iteration_def)
  then have "last_recorded (recorded p) (fst call) = Some (snd call)"
    if "call \<in> set (iteration env (validated p))" for call
    using that dist inv [symmetric] by (cases call) simp
  then have "list_all (\<lambda>call. last_recorded (recorded p) (fst call) = Some (snd call))
               (iteration env (validated p))"
    by (simp add: list_all_iff)
  with c d show ?thesis
    by (simp add: p_def)
qed

theorem one_call_per_command_witness:
  "distinct (map fst (calls (run_instruction example_env create_engine
      (from_vec_string 0 [''-f'', ''a.txt'', ''-w'', ''--words''])))) \<and>
   calls (run_instruction example_env create_engine
      (from_vec_string 0 [''-f'', ''a.txt'', ''-w'', ''--words''])) =
     [(CountWords, \<lparr>name = ''--words'', arg = [], pos = 2, modv = 0\<rparr>),
      (SourceFile, \<lparr>name = ''-f'', arg = ''a.txt'', pos = 0, modv = 0\<rparr>)]"
proof -
  define instr where "instr = from_vec_string 0 [''-f'', ''a.txt'', ''-w'', ''--words'']"
  have run: "\<not> is_panicked (ops (source_check (validate_flags example_env
      (commands create_engine) [0..<length instr]
      \<lparr>inst = instr, ops = operations create_engine, outs = outputs create_engine,
       validated = [], recorded = []\<rparr>)))"
    unfolding instr_def by code_simp
  have "calls (run_instruction example_env create_engine instr) =
     [(CountWords, \<lparr>name = ''--words'', arg = [], pos = 2, modv = 0\<rparr>),
      (SourceFile, \<lparr>name = ''-f'', arg = ''a.txt'', pos = 0, modv = 0\<rparr>)]"
    unfolding instr_def by code_simp
  with one_call_per_command [OF run] show ?thesis
    unfolding instr_def by simp
qed

lemma dom_last_recorded: "dom (last_recorded log) = fst ` set log"
proof -
  have "(last_recorded log c \<noteq> None) = (c \<in> fst ` set log)" for c
  proof (cases "filter (\<lambda>entry. fst entry = c) log")
    case Nil
    then have "c \<notin> fst ` set log"
      by (auto simp: filter_empty_conv)
    with Nil show ?thesis
      by (simp add: last_recorded_def)
  next
    case (Cons e es)
    then have "e \<in> set (filter (\<lambda>entry. fst entry = c) log)"
      by simp
    then have "c \<in> fst ` set log"
      by force
    with Cons show ?thesis
      by (simp add: last_recorded_def)
  qed
  then show ?thesis
    by (auto simp: dom_def)
qed

text \<open>
  C1, as the code has it. In a run that reaches the execution pass, the commands called are
  the validated commands, each once; they are called in the order in which the map of
  validated commands is visited, an order the environment decides, not the flags; and the
  report is the lines of the outputs held before, followed by the lines of the calls in the
  order of the calls.
\<close>

theorem execution_pass_calls:
  assumes "\<not> is_panicked (ops (source_check (validate_flags env (commands eng) [0..<length instr]
              \<lparr>inst = instr, ops = operations eng, outs = outputs eng,
               validated = [], recorded = []\<rparr>)))"
  shows "mset (map fst (calls (run_instruction env eng instr))) =
           mset (remdups (map fst (recorded (validate_flags env (commands eng)
              [0..<length instr]
              \<lparr>inst = instr, ops = operations eng, outs = outputs eng,
               validated = [], recorded = []\<rparr>)))) \<and>
         calls (run_instruction env eng instr) =
           iteration env (validated (validate_flags env (commands eng) [0..<length instr]
              \<lparr>inst = instr, ops = operations eng, outs = outputs eng,
               validated = [], recorded = []\<rparr>)) \<and>
         report (run_instruction env eng instr) =
           render (outputs eng) @
           render (execution_pass env (calls (run_instruction env eng instr))
             (ops (validate_flags env (commands eng) [0..<length instr]
              \<lparr>inst = instr, ops = operations eng, outs = outputs eng,
               validated = [], recorded = []\<rparr>)))"
proof -
  define p where "p = validate_flags env (commands eng) [0..<length instr]
              \<lparr>inst = instr, ops = operations eng, outs = outputs eng,
               validated = [], recorded = []\<rparr>"
  have sc: "source_check p = p"
    using source_check_unpanicked assms by (simp add: p_def)
  then have unp: "\<not> is_panicked (ops p)"
    using assms by (simp add: p_def)
  have outs_p: "outs p = outputs eng"
    using validate_flags_unpanicked [of env "commands eng" "[0..<length instr]"
        "\<lparr>inst = instr, ops = operations eng, outs = outputs eng,
          validated = [], recorded = []\<rparr>"] unp
    by (simp add: p_def)
  have inv: "map_of (validated p) = last_recorded (recorded p)"
    and dist: "distinct (map fst (validated p))"
    using validate_flags_validated [of "\<lparr>inst = instr, ops = operations eng,
        outs = outputs eng, validated = [], recorded = []\<rparr>" env "commands eng"
        "[0..<length instr]"]
    by (simp_all add: p_def last_recorded_def fun_eq_iff)
  have c: "calls (run_instruction env eng instr) = iteration env (validated p)"
    using calls_run_instruction [OF assms] by (simp add: p_def)
  have "set (map fst (validated p)) = dom (map_of (validated p))"
    by (simp add: dom_map_of_conv_image_fst)
  also have "\<dots> = set (remdups (map fst (recorded p)))"
    by (simp add: inv dom_last_recorded)
  finally have "set (map fst (validated p)) = set (remdups (map fst (recorded p)))" .
  then have "mset (map fst (validated p)) = mset (remdups (map fst (recorded p)))"
    using dist set_eq_iff_mset_eq_distinct [of "map fst (validated p)"
        "remdups (map fst (recorded p))"]
    by simp
  then have keys: "mset (map fst (iteration env (validated p))) =
                     mset (remdups (map fst (recorded p)))"
    by (simp add: iteration_def)
  have rep: "report (run_instruction env eng instr) =
           render (outputs eng) @
           render (execution_pass env (iteration env (validated p)) (ops p))"
    unfolding run_instruction_def p_def [symmetric] sc Let_def
    using unp by (simp add: report_grab_output render_append outs_p)
  from keys c rep show ?thesis
    by (simp add: p_def)
qed

theorem execution_pass_calls_witness:
  "mset (map fst (calls (run_instruction example_env create_engine
      (from_vec_string 0 [''-f'', ''a.txt'', ''-s'', ''-rs''])))) =
     {#SourceFile, ShowWords, ShowWordsReverse#} \<and>
   calls (run_instruction example_env create_engine
      (from_vec_string 0 [''-f'', ''a.txt'', ''-s'', ''-rs''])) =
     [(ShowWordsReverse, \<lparr>name = ''-rs'', arg = [], pos = 2, modv = 0\<rparr>),
      (ShowWords, \<lparr>name = ''-s'', arg = [], pos = 1, modv = 0\<rparr>),
      (SourceFile, \<lparr>name = ''-f'', arg = ''a.txt'', pos = 0, modv = 0\<rparr>)]"
proof -
  define instr where "instr = from_vec_string 0 [''-f'', ''a.txt'', ''-s'', ''-rs'']"
  have run: "\<not> is_panicked (ops (source_check (validate_flags example_env
      (commands create_engine) [0..<length instr]
      \<lparr>inst = instr, ops = operations create_engine, outs = outputs create_engine,
       validated = [], recorded = []\<rparr>)))"
    unfolding instr_def by code_simp
  have log: "remdups (map fst (recorded (validate_flags example_env
      (commands create_engine) [0..<length instr]
      \<lparr>inst = instr, ops = operations create_engine, outs = outputs create_engine,
       validated = [], recorded = []\<rparr>))) = [SourceFile, ShowWords, ShowWordsReverse]"
    unfolding instr_def by code_simp
  have order: "iteration example_env (validated (validate_flags example_env
      (commands create_engine) [0..<length instr]
      \<lparr>inst = instr, ops = operations create_engine, outs = outputs create_engine,
       validated = [], recorded = []\<rparr>)) =
     [(ShowWordsReverse, \<lparr>name = ''-rs'', arg = [], pos = 2, modv = 0\<rparr>),
      (ShowWords, \<lparr>name = ''-s'', arg = [], pos = 1, modv = 0\<rparr>),
      (SourceFile, \<lparr>name = ''-f'', arg = ''a.txt'', pos = 0, modv = 0\<rparr>)]"
    unfolding instr_def by code_simp
  from execution_pass_calls [OF run] show ?thesis
    unfolding log order unfolding instr_def by simp
qed

text \<open>
  With the map visited newest key first, \<^verbatim>\<open>-f a.txt -w -c\<close> calls the command of \<^verbatim>\<open>-c\<close>
  before the command of \<^verbatim>\<open>-w\<close>, and the report has their lines in that order.
\<close>

theorem execution_order_counterexample:
  "map_sum id (\<lambda>r. map (\<lambda>call. name (snd call)) (calls r))
     (execute example_env create_engine [''-f'', ''a.txt'', ''-w'', ''-c'']) =
     Inr [''-c'', ''-w'', ''-f''] \<and>
   map_sum id report (execute example_env create_engine [''-f'', ''a.txt'', ''-w'', ''-c'']) =
     Inr (''[SUCCESS]: <-c> Chars: 8'' @ nl @ ''[SUCCESS]: <-w> Words: 3'' @ nl)"
  by code_simp

section \<open>Two runs from the fresh state\<close>

text \<open>
  The only input of a run that is neither a token nor a file nor a choice of the library is
  the unwritten \<^verbatim>\<open>pos\<close> of the flag that \<^verbatim>\<open>Flag()\<close> builds. It reaches the instruction only
  as the single flag of an instruction built from tokens without any flag token.
\<close>

lemma on_token_garbage:
  assumes "exists_flag (snd (snd st))" and "tok \<noteq> []"
  shows "on_token g tok st = on_token g' tok st \<and>
         exists_flag (snd (snd (on_last b (on_token g tok st))))"
proof -
  obtain k fl f where st: "st = (k, fl, f)"
    by (cases st) auto
  with assms show ?thesis
    by (auto simp: on_token_def on_last_def exists_flag_def Flag_new_def)
qed

lemma from_vec_loop_garbage:
  "exists_flag (snd (snd st)) \<Longrightarrow> from_vec_loop g toks st = from_vec_loop g' toks st"
proof (induction toks arbitrary: st)
  case Nil
  show ?case by simp
next
  case (Cons tok rest)
  show ?case
  proof (cases "tok = []")
    case True
    with Cons show ?thesis by simp
  next
    case False
    have same: "on_token g tok st = on_token g' tok st"
      by (rule conjunct1 [OF on_token_garbage [OF Cons.prems False]])
    have ex: "exists_flag (snd (snd (on_last (rest = []) (on_token g tok st))))"
      by (rule conjunct2 [OF on_token_garbage [OF Cons.prems False]])
    from Cons.IH [OF ex] same False show ?thesis
      by simp
  qed
qed

lemma from_vec_loop_sentinel:
  "from_vec_loop g toks (k, [], Flag_new g) = from_vec_loop g' toks (k, [], Flag_new g') \<or>
   from_vec_loop g toks (k, [], Flag_new g) = [Flag_new g] \<and>
   from_vec_loop g' toks (k, [], Flag_new g') = [Flag_new g']"
proof (induction toks arbitrary: k)
  case Nil
  show ?case by simp
next
  case (Cons tok rest)
  show ?case
  proof (cases "tok = []")
    case True
    with Cons show ?thesis by simp
  next
    case False
    note ne = this
    show ?thesis
    proof (cases "is_flag tok")
      case True
      let ?st = "on_last (rest = []) (k + 1, [], \<lparr>name = tok, arg = [], pos = k, modv = 0\<rparr>)"
      have a: "on_token g tok (k, [], Flag_new g) =
                 (k + 1, [], \<lparr>name = tok, arg = [], pos = k, modv = 0\<rparr>)"
        and b: "on_token g' tok (k, [], Flag_new g') =
                 (k + 1, [], \<lparr>name = tok, arg = [], pos = k, modv = 0\<rparr>)"
        using True by (simp_all add: on_token_def exists_flag_def Flag_new_def)
      have "exists_flag (snd (snd ?st))"
        using ne by (simp add: on_last_def exists_flag_def)
      then have "from_vec_loop g rest ?st = from_vec_loop g' rest ?st"
        by (rule from_vec_loop_garbage)
      with ne a b show ?thesis by simp
    next
      case False
      have a: "on_token g tok (k, [], Flag_new g) = (k, [], Flag_new g)"
        and b: "on_token g' tok (k, [], Flag_new g') = (k, [], Flag_new g')"
        using False by (simp_all add: on_token_def exists_flag_def Flag_new_def)
      show ?thesis
      proof (cases "rest = []")
        case True
        with ne a b show ?thesis
          by (simp add: on_last_def parse_def Flag_new_def)
      next
        case False
        with ne a b Cons.IH [of k] show ?thesis
          by (simp add: on_last_def)
      qed
    qed
  qed
qed

lemma from_vec_string_garbage:
  "from_vec_string g toks = from_vec_string g' toks \<or>
   from_vec_string g toks = [Flag_new g] \<and> from_vec_string g' toks = [Flag_new g']"
  unfolding from_vec_string_def by (rule from_vec_loop_sentinel)

lemma std_sort_garbage: "std_sort (env\<lparr>garbage_pos := g\<rparr>) cmp xs = std_sort env cmp xs"
  by (simp add: std_sort_def)

lemma execute_command_garbage:
  "execute_command (env\<lparr>garbage_pos := g\<rparr>) command flag state =
   execute_command env command flag state"
  by (cases command) (simp_all add: std_sort_garbage)

lemma validate_garbage:
  "validate (env\<lparr>garbage_pos := g\<rparr>) command flag instr state =
   validate env command flag instr state"
  by (cases command) simp_all

lemma validate_flags_garbage:
  "validate_flags (env\<lparr>garbage_pos := g\<rparr>) holder idxs p = validate_flags env holder idxs p"
proof (induction idxs arbitrary: p)
  case Nil
  show ?case by simp
next
  case (Cons i rest)
  show ?case
    by (simp add: validate_garbage Cons.IH split: option.splits prod.splits)
qed

lemma iteration_garbage: "iteration (env\<lparr>garbage_pos := g\<rparr>) m = iteration env m"
  by (simp add: iteration_def)

lemma execution_pass_garbage:
  "execution_pass (env\<lparr>garbage_pos := g\<rparr>) pairs state = execution_pass env pairs state"
  by (simp add: execution_pass_def execute_command_garbage)

lemma run_instruction_garbage:
  "run_instruction (env\<lparr>garbage_pos := g\<rparr>) eng instr = run_instruction env eng instr"
  by (simp add: run_instruction_def validate_flags_garbage iteration_garbage
      execution_pass_garbage Let_def)

lemma resolve_nameless: "resolve holder [] = None"
proof -
  have "caller command \<noteq> [] \<and> alias_of command \<noteq> []" for command
    by (cases command) simp_all
  then show ?thesis
    by (simp add: resolve_def get_by_caller_def get_by_alias_def find_None_iff
        split: option.splits)
qed

lemma run_sentinel:
  "run_instruction env create_engine [Flag_new g] =
     grab_output
       (create_engine
          \<lparr>outputs := [new_err ''<ENGINE> Invalid flag: []'',
                       new_err ''<ENGINE> Source file is invalid!''],
           operations := Operations_new\<lparr>is_panicked := True\<rparr>\<rparr>) []"
  by (simp add: run_instruction_def commands_create_engine resolve_def get_by_caller_def
      get_by_alias_def Flag_new_def source_check_def operations_create_engine
      outputs_create_engine Operations_new_def Let_def)

lemma run_from_vec_string_garbage:
  "run_instruction env create_engine (from_vec_string g toks) =
   run_instruction env create_engine (from_vec_string g' toks)"
  using from_vec_string_garbage [of g toks g'] by (auto simp: run_sentinel)

lemma execute_garbage:
  "execute (env\<lparr>garbage_pos := g\<rparr>) create_engine raw_args = execute env create_engine raw_args"
proof -
  consider (same) "from_vec_string g raw_args = from_vec_string (garbage_pos env) raw_args"
    | (sentinel) "from_vec_string g raw_args = [Flag_new g]"
        "from_vec_string (garbage_pos env) raw_args = [Flag_new (garbage_pos env)]"
    using from_vec_string_garbage [of g raw_args "garbage_pos env"] by blast
  then show ?thesis
  proof cases
    case same
    then show ?thesis
      using run_from_vec_string_garbage [of env g _ "garbage_pos env"]
      by (simp add: execute_def run_instruction_garbage Let_def split: option.splits)
  next
    case sentinel
    have "\<not> flag_exists [Flag_new u] ''-i'' ''--input''" for u
      by (simp add: flag_exists_def Flag_new_def)
    with sentinel show ?thesis
      by (simp add: execute_def run_instruction_garbage run_sentinel Let_def)
  qed
qed

text \<open>
  C8. Two runs of the engine that \<^verbatim>\<open>create_engine\<close> builds, each from the fresh state, on
  the same tokens, with the same files and the same library, return the same string, write
  the same file and leave the same engine, whatever each of them finds in the unwritten
  \<^verbatim>\<open>pos\<close>.
\<close>

theorem two_runs_agree:
  "execute (env\<lparr>garbage_pos := g1\<rparr>) create_engine raw_args =
   execute (env\<lparr>garbage_pos := g2\<rparr>) create_engine raw_args"
  by (simp add: execute_garbage)

section \<open>The engine returns\<close>

lemma indexed_inv_on_token:
  assumes "indexed_inv st" and "tok \<noteq> []"
  shows "indexed_inv (on_token u tok st)"
proof -
  obtain position flags flag where st: "st = (position, flags, flag)"
    by (cases st) auto
  with assms show ?thesis
    by (cases "is_flag tok")
      (auto simp: indexed_inv_def on_token_def exists_flag_def Flag_new_def)
qed

lemma indexed_after_last:
  assumes "indexed_inv st"
  shows "map pos (fst (snd (on_last True st))) = [0..<length (fst (snd (on_last True st)))] \<or>
         (\<exists>f. fst (snd (on_last True st)) = [f] \<and> \<not> exists_flag f)"
proof -
  obtain position flags flag where st: "st = (position, flags, flag)"
    by (cases st) auto
  with assms show ?thesis
    by (auto simp: indexed_inv_def on_last_def exists_flag_def parse_def split: if_splits)
qed

lemma from_vec_loop_indexed:
  "indexed_inv st \<Longrightarrow>
   map pos (from_vec_loop u toks st) = [0..<length (from_vec_loop u toks st)] \<or>
   (\<exists>f. from_vec_loop u toks st = [f] \<and> \<not> exists_flag f)"
proof (induction toks arbitrary: st)
  case Nil
  then show ?case
    by (cases st) (auto simp: indexed_inv_def)
next
  case (Cons tok rest)
  show ?case
  proof (cases "tok = []")
    case True
    with Cons show ?thesis by simp
  next
    case False
    note ne = this
    show ?thesis
    proof (cases "rest = []")
      case True
      with ne indexed_after_last [OF indexed_inv_on_token [OF Cons.prems ne], of u]
      show ?thesis by simp
    next
      case False
      with ne Cons.IH [OF indexed_inv_on_token [OF Cons.prems ne]] show ?thesis
        by (simp add: on_last_def split: prod.splits)
    qed
  qed
qed

lemma from_vec_string_single:
  assumes "from_vec_string u toks = [f]" and "name f \<noteq> []"
  shows "get_flag_ptr (from_vec_string u toks) 0 = Some 0"
proof -
  have "indexed_inv (0, [], Flag_new u)"
    by (simp add: indexed_inv_def exists_flag_def Flag_new_def)
  from from_vec_loop_indexed [OF this, of u toks] assms show ?thesis
    by (auto simp: from_vec_string_def exists_flag_def)
qed

text \<open>
  \<^verbatim>\<open>inst.get_flag_ptr(0)\<close> is never null where \<^verbatim>\<open>Engine::execute\<close> dereferences it: every
  call of \<open>execute\<close> returns a run.
\<close>

lemma execute_returns: "\<exists>r. execute env eng raw_args = Inr r"
proof (cases "flag_exists (from_vec_string (garbage_pos env) raw_args) ''-i'' ''--input'' \<and>
              length (from_vec_string (garbage_pos env) raw_args) = 1")
  case False
  then show ?thesis
    by (auto simp: execute_def Let_def split: option.splits)
next
  case True
  then obtain f where single: "from_vec_string (garbage_pos env) raw_args = [f]"
    by (cases "from_vec_string (garbage_pos env) raw_args") auto
  with True have "name f \<noteq> []"
    by (auto simp: flag_exists_def)
  from from_vec_string_single [OF single this] True show ?thesis
    by (auto simp: execute_def Let_def split: option.splits)
qed

lemma execute_without_input_flag:
  "\<not> flag_exists (from_vec_string (garbage_pos env) raw_args) ''-i'' ''--input'' \<Longrightarrow>
   execute env eng raw_args =
     Inr (run_instruction env eng (from_vec_string (garbage_pos env) raw_args))"
  by (simp add: execute_def)

text \<open>
  A run from the fresh state that writes no file leaves the engine in the fresh state
  (\<^verbatim>\<open>clear\<close>), so the next call on the same engine starts from it again.
\<close>

lemma grab_output_leaves:
  "written (grab_output e log) = None \<Longrightarrow> engine (grab_output e log) = clear e"
  by (simp add: grab_output_def split: if_splits)

lemma run_instruction_leaves:
  "written (run_instruction env eng instr) = None \<Longrightarrow>
   engine (run_instruction env eng instr) = clear eng"
  by (auto simp: run_instruction_def Let_def grab_output_def clear_def split: if_splits)

lemma execute_leaves_fresh:
  assumes "execute env eng raw_args = Inr r" and "written r = None"
  shows "engine r = clear eng"
  using assms
  by (auto simp: execute_def Let_def grab_output_def clear_def push_err_def
      run_instruction_leaves [unfolded clear_def] split: if_splits option.splits)

end
